theory Spec2Isabelle
  imports Complex_Main
begin

section \<open>The Python runtime the script relies on\<close>

text \<open>
  Exceptions that can leave a function of \<^verbatim>\<open>main.py\<close>. The interpreter raises the first
  five; \<open>LibraryError\<close> stands for any exception raised inside Pillow, with its message.
\<close>

datatype py_exc = ZeroDivisionError | OverflowError | ValueError | TypeError | IndexError
  | LibraryError string

definition bindE :: "py_exc + 'a \<Rightarrow> ('a \<Rightarrow> py_exc + 'b) \<Rightarrow> py_exc + 'b" where
  "bindE m f = (case m of Inl e \<Rightarrow> Inl e | Inr x \<Rightarrow> f x)"

subsection \<open>Floats: IEEE binary64, round to nearest, ties to even\<close>

text \<open>
  A Python \<^verbatim>\<open>float\<close> is a binary64. A finite one is \<open>Finite m e\<close>, the number
  \<open>m * 2 ^ e\<close> with \<open>\<bar>m\<bar> \<le> 2 ^ 53\<close> and \<open>- 1074 \<le> e\<close>. The sign of a zero is not
  kept: no operation of the script can tell \<^verbatim>\<open>0.0\<close> from \<^verbatim>\<open>-0.0\<close>.
\<close>

datatype pyfloat = Finite int int | PosInf | NegInf | NaN

fun valof :: "pyfloat \<Rightarrow> rat" where
  "valof (Finite m e) = of_int m * 2 powi e"
| "valof _ = 0"

text \<open>\<^verbatim>\<open>int.bit_length()\<close> on a positive integer.\<close>

function bit_length :: "int \<Rightarrow> int" where
  "bit_length n = (if n \<le> 0 then 0 else 1 + bit_length (n div 2))"
  by pat_completeness auto
termination
  by (relation "measure nat") auto

declare bit_length.simps [simp del]

definition scale2 :: "int \<Rightarrow> int \<Rightarrow> int" where
  "scale2 n k = (if 0 \<le> k then n * 2 ^ nat k else n)"

text \<open>The integer nearest to \<open>n / d\<close> for \<open>0 < d\<close>, a tie going to the even one.\<close>

definition round_half_even_div :: "int \<Rightarrow> int \<Rightarrow> int" where
  "round_half_even_div n d = (let k = n div d; r = n mod d in
     if 2 * r < d then k else if d < 2 * r then k + 1 else if even k then k else k + 1)"

text \<open>
  \<open>fl n d s\<close> is the binary64 nearest to the exact number \<open>n / d * 2 ^ s\<close>: the exponent
  of the result keeps 53 significant bits (fewer below \<open>2 ^ - 1022\<close>, the subnormal range),
  and a result of \<open>2 ^ 1024\<close> or more is an infinity.
\<close>

definition fl :: "int \<Rightarrow> int \<Rightarrow> int \<Rightarrow> pyfloat" where
  "fl n d s = (let p = \<bar>n\<bar>; q = \<bar>d\<bar> in
     if p = 0 \<or> q = 0 then Finite 0 0 else
     let b = bit_length p - bit_length q;
         lg = (if scale2 q b \<le> scale2 p (- b) then b else b - 1) + s;
         e = max (lg - 52) (- 1074);
         m = round_half_even_div (scale2 p (s - e)) (scale2 q (e - s))
     in if 971 < e \<or> (e = 971 \<and> 2 ^ 53 \<le> m) then (if 0 < n * d then PosInf else NegInf)
        else Finite (sgn (n * d) * m) e)"

text \<open>\<^verbatim>\<open>float(n)\<close>, also the conversion of an \<^verbatim>\<open>int\<close> operand next to a float one.\<close>

definition float_of_int :: "int \<Rightarrow> py_exc + pyfloat" where
  "float_of_int n = (case fl n 1 0 of Finite m e \<Rightarrow> Inr (Finite m e) | _ \<Rightarrow> Inl OverflowError)"

text \<open>\<^verbatim>\<open>a / b\<close> on two \<^verbatim>\<open>int\<close>s: the correctly rounded quotient.\<close>

definition int_truediv :: "int \<Rightarrow> int \<Rightarrow> py_exc + pyfloat" where
  "int_truediv a b = (if b = 0 then Inl ZeroDivisionError else
     case fl a b 0 of Finite m e \<Rightarrow> Inr (Finite m e) | _ \<Rightarrow> Inl OverflowError)"

fun fsgn :: "pyfloat \<Rightarrow> int" where
  "fsgn (Finite m e) = sgn m"
| "fsgn PosInf = 1"
| "fsgn NegInf = - 1"
| "fsgn NaN = 0"

definition signed_inf :: "int \<Rightarrow> pyfloat" where
  "signed_inf s = (if s = 0 then NaN else if 0 < s then PosInf else NegInf)"

text \<open>\<^verbatim>\<open>x * y\<close> on floats never raises: it overflows to an infinity.\<close>

fun fmul :: "pyfloat \<Rightarrow> pyfloat \<Rightarrow> pyfloat" where
  "fmul (Finite a e) (Finite b f) = fl (a * b) 1 (e + f)"
| "fmul NaN y = NaN"
| "fmul x NaN = NaN"
| "fmul x y = signed_inf (fsgn x * fsgn y)"

text \<open>\<^verbatim>\<open>x / y\<close> on floats raises on a zero divisor.\<close>

fun fdiv :: "pyfloat \<Rightarrow> pyfloat \<Rightarrow> py_exc + pyfloat" where
  "fdiv (Finite a e) (Finite b f) =
     (if b = 0 then Inl ZeroDivisionError else Inr (fl a b (e - f)))"
| "fdiv NaN y = Inr NaN"
| "fdiv x NaN = Inr NaN"
| "fdiv x (Finite b f) =
     (if b = 0 then Inl ZeroDivisionError else Inr (signed_inf (fsgn x * sgn b)))"
| "fdiv (Finite a e) y = Inr (Finite 0 0)"
| "fdiv x y = Inr NaN"

text \<open>\<^verbatim>\<open>int(x)\<close> truncates toward zero.\<close>

fun py_int :: "pyfloat \<Rightarrow> py_exc + int" where
  "py_int (Finite m e) =
     Inr (if 0 \<le> e then m * 2 ^ nat e else sgn m * (\<bar>m\<bar> div 2 ^ nat (- e)))"
| "py_int NaN = Inl ValueError"
| "py_int x = Inl OverflowError"

text \<open>\<^verbatim>\<open>xs[i]\<close>: a negative index counts from the end, anything else out of range raises.\<close>

definition py_index :: "'a list \<Rightarrow> int \<Rightarrow> py_exc + 'a" where
  "py_index xs i =
     (let n = int (length xs); j = (if i < 0 then i + n else i)
      in if 0 \<le> j \<and> j < n then Inr (xs ! nat j) else Inl IndexError)"

definition newline :: char where
  "newline = CHR 0x0A"

section \<open>Pillow, as the script sees it\<close>

text \<open>
  A pixel read by \<^verbatim>\<open>getdata()\<close> is one number for a single-band image (mode \<^verbatim>\<open>L\<close>)
  and a tuple otherwise. An image is its \<^verbatim>\<open>size\<close> and its pixels in row-major order.
\<close>

datatype pixel = Gray int | Bands "int list"

record image =
  img_size :: "int \<times> int"
  getdata :: "pixel list"

text \<open>
  What \<^verbatim>\<open>Image.open\<close> can end with, as far as the two handlers of the script tell:
  \<^verbatim>\<open>FileNotFoundError\<close>, or any other \<^verbatim>\<open>Exception\<close> with its message.
\<close>

datatype open_failure = FileNotFoundError | OtherException string

text \<open>
  Decoding, resampling and the luminance conversion are Pillow's, not this repository's:
  they are parameters of the model.
\<close>

record pillow =
  image_open :: "string \<Rightarrow> open_failure + image"
  image_resize :: "image \<Rightarrow> int \<times> int \<Rightarrow> py_exc + image"
  image_convert_L :: "image \<Rightarrow> py_exc + image"

text \<open>What a run does to the outside, in order.\<close>

datatype event = CallOpen string | CallResize int int | CallConvert | Print string

fun stdout_of :: "event list \<Rightarrow> string" where
  "stdout_of [] = []"
| "stdout_of (Print s # evs) = s @ [newline] @ stdout_of evs"
| "stdout_of (ev # evs) = stdout_of evs"

section \<open>main.py\<close>

definition ASCII_CHARS_PADRAO :: string where
  "ASCII_CHARS_PADRAO =
     ''$@B%8&WM#*oahkbdpqwmZO0QLCJUYXzcvunxrjft/'' @ [CHR 0x5C] @ ''|()1{}[]?-_+~<>i!lI;:,''
       @ [CHR 0x22] @ ''^`'' @ [CHR 0x27] @ ''. ''"

subsection \<open>redimensionar_imagem\<close>

text \<open>The literal \<^verbatim>\<open>0.55\<close>.\<close>

definition fator_terminal :: pyfloat where
  "fator_terminal = fl 11 20 0"

text \<open>
  Lines 23 to 27: \<^verbatim>\<open>proporcao = altura_original / float(largura_original)\<close> and
  \<^verbatim>\<open>nova_altura = int((nova_largura * proporcao) * 0.55)\<close>.
\<close>

definition nova_altura :: "int \<times> int \<Rightarrow> int \<Rightarrow> py_exc + int" where
  "nova_altura tamanho nova_largura =
     (case tamanho of (largura_original, altura_original) \<Rightarrow>
        bindE (float_of_int largura_original) (\<lambda>fw.
        bindE (float_of_int altura_original) (\<lambda>fh.
        bindE (fdiv fh fw) (\<lambda>proporcao.
        bindE (float_of_int nova_largura) (\<lambda>fl_largura.
        py_int (fmul (fmul fl_largura proporcao) fator_terminal))))))"

definition redimensionar_imagem ::
    "pillow \<Rightarrow> image \<Rightarrow> int \<Rightarrow> event list \<times> (py_exc + image)" where
  "redimensionar_imagem lib imagem nova_largura =
     (case nova_altura (img_size imagem) nova_largura of
        Inl e \<Rightarrow> ([], Inl e)
      | Inr altura \<Rightarrow>
          ([CallResize nova_largura altura], image_resize lib imagem (nova_largura, altura)))"

subsection \<open>converter_para_escala_de_cinza\<close>

definition converter_para_escala_de_cinza ::
    "pillow \<Rightarrow> image \<Rightarrow> event list \<times> (py_exc + image)" where
  "converter_para_escala_de_cinza lib imagem = ([CallConvert], image_convert_L lib imagem)"

subsection \<open>mapear_pixels_para_ascii\<close>

text \<open>Line 45: \<^verbatim>\<open>indice = int((pixel_valor / 255) * (len(caracteres_ascii) - 1))\<close>.\<close>

definition indice :: "int \<Rightarrow> nat \<Rightarrow> py_exc + int" where
  "indice pixel_valor n =
     bindE (int_truediv pixel_valor 255) (\<lambda>q.
     bindE (float_of_int (int n - 1)) (\<lambda>k.
     py_int (fmul q k)))"

text \<open>The loop of lines 43 to 46; dividing a tuple by 255 is a \<^verbatim>\<open>TypeError\<close>.\<close>

fun mapear_loop :: "string \<Rightarrow> pixel list \<Rightarrow> string \<Rightarrow> py_exc + string" where
  "mapear_loop caracteres_ascii [] caracteres = Inr caracteres"
| "mapear_loop caracteres_ascii (Bands t # pixels) caracteres = Inl TypeError"
| "mapear_loop caracteres_ascii (Gray pixel_valor # pixels) caracteres =
     bindE (indice pixel_valor (length caracteres_ascii)) (\<lambda>i.
     bindE (py_index caracteres_ascii i) (\<lambda>c.
     mapear_loop caracteres_ascii pixels (caracteres @ [c])))"

definition paleta :: "bool \<Rightarrow> string" where
  "paleta invertido = (if invertido then rev ASCII_CHARS_PADRAO else ASCII_CHARS_PADRAO)"

definition mapear_pixels_para_ascii :: "image \<Rightarrow> bool \<Rightarrow> py_exc + string" where
  "mapear_pixels_para_ascii imagem invertido =
     mapear_loop (paleta invertido) (getdata imagem) []"

subsection \<open>gerar_arte_ascii\<close>

text \<open>
  Lines 73 and 74: \<^verbatim>\<open>for i in range(0, len(string_ascii), largura_imagem)\<close>, each turn
  appending \<^verbatim>\<open>string_ascii[i:i + largura_imagem] + "\n"\<close>.
\<close>

function linhas :: "string \<Rightarrow> nat \<Rightarrow> nat \<Rightarrow> string \<Rightarrow> string" where
  "linhas string_ascii largura_imagem i arte =
     (if 0 < largura_imagem \<and> i < length string_ascii
      then linhas string_ascii largura_imagem (i + largura_imagem)
             (arte @ take largura_imagem (drop i string_ascii) @ [newline])
      else arte)"
  by pat_completeness auto
termination
  by (relation "measure (\<lambda>(s, w, i, a). length s - i)") auto

declare linhas.simps [simp del]

text \<open>\<^verbatim>\<open>range\<close> refuses a step of zero and is empty for a negative one.\<close>

definition arte_ascii_final :: "string \<Rightarrow> int \<Rightarrow> py_exc + string" where
  "arte_ascii_final string_ascii largura_imagem =
     (if largura_imagem = 0 then Inl ValueError
      else if largura_imagem < 0 then Inr []
      else Inr (linhas string_ascii (nat largura_imagem) 0 []))"

definition mensagem_nao_encontrado :: "string \<Rightarrow> string" where
  "mensagem_nao_encontrado caminho_imagem =
     ''Erro: O arquivo '' @ [CHR 0x27] @ caminho_imagem @ [CHR 0x27]
       @ '' n'' @ [CHR 0xE3] @ ''o foi encontrado.''"

definition mensagem_erro_abrir :: "string \<Rightarrow> string" where
  "mensagem_erro_abrir e = ''Erro ao abrir a imagem: '' @ e"

text \<open>
  The result is the trace of the run and the exception that reaches the caller, if any.
\<close>

definition gerar_arte_ascii ::
    "pillow \<Rightarrow> string \<Rightarrow> int \<Rightarrow> bool \<Rightarrow> event list \<times> py_exc option" where
  "gerar_arte_ascii lib caminho_imagem largura invertido =
     (case image_open lib caminho_imagem of
        Inl FileNotFoundError \<Rightarrow>
          ([CallOpen caminho_imagem, Print (mensagem_nao_encontrado caminho_imagem)], None)
      | Inl (OtherException e) \<Rightarrow>
          ([CallOpen caminho_imagem, Print (mensagem_erro_abrir e)], None)
      | Inr imagem \<Rightarrow>
         (case redimensionar_imagem lib imagem largura of
            (ev1, Inl e) \<Rightarrow> (CallOpen caminho_imagem # ev1, Some e)
          | (ev1, Inr imagem_redimensionada) \<Rightarrow>
             (case converter_para_escala_de_cinza lib imagem_redimensionada of
                (ev2, Inl e) \<Rightarrow> (CallOpen caminho_imagem # ev1 @ ev2, Some e)
              | (ev2, Inr imagem_cinza) \<Rightarrow>
                 (case mapear_pixels_para_ascii imagem_cinza invertido of
                    Inl e \<Rightarrow> (CallOpen caminho_imagem # ev1 @ ev2, Some e)
                  | Inr string_ascii \<Rightarrow>
                     (case arte_ascii_final string_ascii
                             (fst (img_size imagem_redimensionada)) of
                        Inl e \<Rightarrow> (CallOpen caminho_imagem # ev1 @ ev2, Some e)
                      | Inr arte \<Rightarrow>
                          (CallOpen caminho_imagem # ev1 @ ev2 @ [Print arte], None))))))"

section \<open>Vocabulary of the properties\<close>

text \<open>
  A pixel of a mode \<^verbatim>\<open>L\<close> image: one luminance between 0 and 255.
\<close>

definition luminancia_valida :: "pixel \<Rightarrow> bool" where
  "luminancia_valida p = (case p of Gray v \<Rightarrow> 0 \<le> v \<and> v \<le> 255 | Bands t \<Rightarrow> False)"

definition luminancia :: "pixel \<Rightarrow> int" where
  "luminancia p = (case p of Gray v \<Rightarrow> v | Bands t \<Rightarrow> 0)"

text \<open>
  An image of mode \<^verbatim>\<open>L\<close> of the given size, as Pillow hands it over: one valid
  luminance for each of its \<open>w * h\<close> pixels.
\<close>

definition imagem_cinza_de :: "int \<times> int \<Rightarrow> image \<Rightarrow> bool" where
  "imagem_cinza_de tamanho g =
     (img_size g = tamanho \<and> length (getdata g) = nat (fst tamanho) * nat (snd tamanho)
      \<and> list_all luminancia_valida (getdata g))"

text \<open>
  Two characters that sit at mirrored places of the palette: \<open>palette[i]\<close> and
  \<open>palette[N - 1 - i]\<close>.
\<close>

definition espelhados :: "char \<Rightarrow> char \<Rightarrow> bool" where
  "espelhados c1 c2 =
     list_ex (\<lambda>i. c1 = ASCII_CHARS_PADRAO ! i
                 \<and> c2 = ASCII_CHARS_PADRAO ! (length ASCII_CHARS_PADRAO - 1 - i))
       [0..<length ASCII_CHARS_PADRAO]"

definition espelhados_ou_quebra :: "char \<Rightarrow> char \<Rightarrow> bool" where
  "espelhados_ou_quebra c1 c2 = ((c1 = newline \<and> c2 = newline) \<or> espelhados c1 c2)"

subsection \<open>A small instance of the library, for worked examples\<close>

text \<open>
  Luminance with Pillow's integer weights, nearest-neighbour resampling that refuses an
  empty target as Pillow does, and a file system of four files.
\<close>

definition luma :: "pixel \<Rightarrow> pixel" where
  "luma p = (case p of
       Gray v \<Rightarrow> Gray v
     | Bands [r, g, b] \<Rightarrow> Gray ((r * 19595 + g * 38470 + b * 7471 + 32768) div 65536)
     | Bands t \<Rightarrow> Gray 0)"

definition vizinho_mais_proximo :: "image \<Rightarrow> int \<times> int \<Rightarrow> image" where
  "vizinho_mais_proximo imagem tamanho =
     (case (img_size imagem, tamanho) of ((w0, h0), (w, h)) \<Rightarrow>
        \<lparr>img_size = (w, h),
         getdata = map (\<lambda>k. getdata imagem !
                            ((k div nat w * nat h0 div nat h) * nat w0
                               + k mod nat w * nat w0 div nat w))
                     [0..<nat w * nat h]\<rparr>)"

definition imagem_branca :: image where
  "imagem_branca = \<lparr>img_size = (2, 2), getdata = replicate 4 (Bands [255, 255, 255])\<rparr>"

definition imagem_degrade :: image where
  "imagem_degrade = \<lparr>img_size = (2, 4),
     getdata = map (\<lambda>v. Bands [v, v, v]) [0, 26, 85, 128, 170, 200, 255, 13]\<rparr>"

definition imagem_ponto :: image where
  "imagem_ponto = \<lparr>img_size = (1, 1), getdata = [Bands [10, 20, 30]]\<rparr>"

definition pillow_exemplo :: pillow where
  "pillow_exemplo =
     \<lparr>image_open = (\<lambda>caminho.
          if caminho = ''branca.png'' then Inr imagem_branca
          else if caminho = ''degrade.png'' then Inr imagem_degrade
          else if caminho = ''ponto.png'' then Inr imagem_ponto
          else if caminho = ''notas.txt''
            then Inl (OtherException ''cannot identify image file'')
          else Inl FileNotFoundError),
      image_resize = (\<lambda>imagem tamanho.
          if fst tamanho < 1 \<or> snd tamanho < 1 then Inl ValueError
          else Inr (vizinho_mais_proximo imagem tamanho)),
      image_convert_L = (\<lambda>imagem. Inr (imagem\<lparr>getdata := map luma (getdata imagem)\<rparr>))\<rparr>"



section \<open>The palette and the quantisation\<close>

lemma length_ASCII_CHARS_PADRAO: "length ASCII_CHARS_PADRAO = 70"
  by (simp add: ASCII_CHARS_PADRAO_def)

lemma length_paleta: "length (paleta invertido) = 70"
  by (simp add: paleta_def length_ASCII_CHARS_PADRAO)

text \<open>
  The float computation of line 45, run on each of the 256 luminances: it agrees with the
  exact quotient \<open>69 * v div 255\<close> everywhere.
\<close>

lemma indice_table: "\<forall>v \<in> set [0..255]. indice v 70 = Inr (69 * v div 255)"
  by code_simp

lemma indice_luminancia:
  assumes "0 \<le> v" "v \<le> 255"
  shows "indice v 70 = Inr (69 * v div 255)"
proof -
  from assms have "v \<in> set [0..255]" by simp
  with indice_table show ?thesis by blast
qed

lemma floor_quantizacao: "\<lfloor>rat_of_int v / 255 * 69\<rfloor> = 69 * v div 255"
proof -
  have "rat_of_int v / 255 * 69 = rat_of_int (69 * v) / rat_of_int 255" by simp
  then show ?thesis by (simp only: floor_divide_of_int_eq)
qed

lemma quantizacao_bounds:
  assumes "0 \<le> (v::int)" "v \<le> 255"
  shows "0 \<le> 69 * v div 255" "69 * v div 255 \<le> 69"
  using assms by auto

lemma py_index_in_range:
  "0 \<le> i \<Longrightarrow> i < int (length xs) \<Longrightarrow> py_index xs i = Inr (xs ! nat i)"
  by (simp add: py_index_def)

lemma mapear_loop_luminancias:
  assumes "list_all luminancia_valida ps" "length pal = 70"
  shows "mapear_loop pal ps acc
           = Inr (acc @ map (\<lambda>p. pal ! nat (69 * luminancia p div 255)) ps)"
  using assms
proof (induction ps arbitrary: acc)
  case Nil
  then show ?case by simp
next
  case (Cons p ps)
  from Cons.prems obtain v where p: "p = Gray v" and v: "0 \<le> v" "v \<le> 255"
    by (cases p) (auto simp: luminancia_valida_def)
  have i: "indice v 70 = Inr (69 * v div 255)"
    using v by (rule indice_luminancia)
  have "py_index pal (69 * v div 255) = Inr (pal ! nat (69 * v div 255))"
    using quantizacao_bounds [OF v] Cons.prems(2) by (intro py_index_in_range) auto
  with i Cons show ?case
    by (simp add: p bindE_def luminancia_def)
qed

section \<open>Claims about the palette mapper\<close>

text \<open>
  C2 (as amended). For every luminance \<open>v\<close> between 0 and 255 the index computed on
  line 45 lies between 0 and \<open>N - 1\<close>, where \<open>N = 70\<close> is the length of the palette, so
  the lookup of line 46 succeeds, with the forward palette and with the reversed one. The
  palette is not empty: it has 70 characters.
\<close>

theorem indice_dentro_da_paleta:
  assumes "0 \<le> v" "v \<le> 255"
  shows "length ASCII_CHARS_PADRAO = 70 \<and> length (paleta invertido) = 70
     \<and> (\<exists>i. indice v (length (paleta invertido)) = Inr i
            \<and> 0 \<le> i \<and> i \<le> int (length (paleta invertido)) - 1
            \<and> py_index (paleta invertido) i = Inr (paleta invertido ! nat i))"
proof -
  have i: "indice v (length (paleta invertido)) = Inr (69 * v div 255)"
    using assms by (simp add: length_paleta indice_luminancia)
  have b: "0 \<le> 69 * v div 255" "69 * v div 255 \<le> 69"
    using assms by (rule quantizacao_bounds)+
  have "py_index (paleta invertido) (69 * v div 255)
          = Inr (paleta invertido ! nat (69 * v div 255))"
    using b by (intro py_index_in_range) (simp_all add: length_paleta)
  with i b show ?thesis
    by (simp add: length_paleta length_ASCII_CHARS_PADRAO)
qed

theorem indice_dentro_da_paleta_witness:
  "indice 200 (length (paleta True)) = Inr 54
     \<and> py_index (paleta True) 54 = Inr (CHR ''d'')"
proof -
  have h: "(0::int) \<le> 200" "(200::int) \<le> 255" by simp_all
  have c: "indice 200 70 = Inr 54" by code_simp
  have k: "paleta True ! nat 54 = CHR ''d''" by code_simp
  from indice_dentro_da_paleta [OF h, of True] c k show ?thesis
    by (simp add: length_paleta)
qed

text \<open>
  C2 as the specification words it gives the palette 69 characters and the index the
  range 0 to 68. The palette of line 19 has 70, and white (255) has index 69.
\<close>

theorem paleta_tem_70_counterexample:
  "length ASCII_CHARS_PADRAO \<noteq> 69 \<and> indice 255 (length ASCII_CHARS_PADRAO) = Inr 69"
proof -
  have "indice 255 70 = Inr 69" by code_simp
  then show ?thesis by (simp add: length_ASCII_CHARS_PADRAO)
qed

lemma mapear_pixels_luminancias:
  assumes "list_all luminancia_valida (getdata imagem)"
  shows "mapear_pixels_para_ascii imagem invertido
           = Inr (map (\<lambda>p. paleta invertido ! nat (69 * luminancia p div 255)) (getdata imagem))"
  using mapear_loop_luminancias [OF assms length_paleta, of invertido "[]"]
  by (simp add: mapear_pixels_para_ascii_def)

text \<open>
  C3 (as amended). For a sequence of luminances between 0 and 255 and either value of the
  flag, the mapper returns one character per pixel, in the order of the buffer: for the
  pixel value \<open>v\<close> the character \<open>palette[floor(v / 255 * (N - 1))]\<close> with \<open>N = 70\<close>,
  the palette being the forward one when the flag is false and the reversed one when it
  is true.
\<close>

theorem mapear_um_caractere_por_pixel:
  assumes "list_all luminancia_valida (getdata imagem)"
  shows "mapear_pixels_para_ascii imagem invertido
           = Inr (map (\<lambda>p. paleta invertido ! nat \<lfloor>rat_of_int (luminancia p) / 255 * 69\<rfloor>)
                    (getdata imagem))
         \<and> paleta False = ASCII_CHARS_PADRAO \<and> paleta True = rev ASCII_CHARS_PADRAO
         \<and> int (length (paleta invertido)) - 1 = 69"
proof -
  have "mapear_pixels_para_ascii imagem invertido
           = Inr (map (\<lambda>p. paleta invertido ! nat \<lfloor>rat_of_int (luminancia p) / 255 * 69\<rfloor>)
                    (getdata imagem))"
    using mapear_pixels_luminancias [OF assms, of invertido]
    by (simp only: floor_quantizacao)
  moreover have "paleta False = ASCII_CHARS_PADRAO" "paleta True = rev ASCII_CHARS_PADRAO"
    by (simp_all add: paleta_def)
  moreover have "int (length (paleta invertido)) - 1 = 69"
    by (simp add: length_paleta)
  ultimately show ?thesis by (intro conjI)
qed

theorem mapear_um_caractere_por_pixel_witness:
  "mapear_pixels_para_ascii
      \<lparr>img_size = (2, 2), getdata = [Gray 0, Gray 26, Gray 255, Gray 128]\<rparr> True
     = Inr '' :$x''"
proof -
  have h: "list_all luminancia_valida
             (getdata \<lparr>img_size = (2, 2), getdata = [Gray 0, Gray 26, Gray 255, Gray 128]\<rparr>)"
    by (simp add: luminancia_valida_def)
  have c: "map (\<lambda>p. paleta True ! nat \<lfloor>rat_of_int (luminancia p) / 255 * 69\<rfloor>)
             [Gray 0, Gray 26, Gray 255, Gray 128] = '' :$x''"
    by code_simp
  from mapear_um_caractere_por_pixel [OF h, of True] c show ?thesis
    by simp
qed

text \<open>
  C3 as the specification words it takes \<open>N = 69\<close>. For the luminance 26 that would be
  the character at index \<open>floor(26 / 255 * 68) = 6\<close>; the mapper returns the one at 7.
\<close>

theorem mapear_com_68_counterexample:
  "mapear_pixels_para_ascii \<lparr>img_size = (1, 1), getdata = [Gray 26]\<rparr> False = Inr ''M''
     \<and> [ASCII_CHARS_PADRAO ! nat \<lfloor>rat_of_int 26 / 255 * (69 - 1)\<rfloor>] = ''W''"
  by code_simp

text \<open>
  C7. The index is monotonic in the luminance: for \<open>v1 \<le> v2\<close>, both between 0 and 255,
  the index of \<open>v1\<close> is at most that of \<open>v2\<close>. With the forward palette the index is
  the place of the emitted character in the density-ordered palette; with the reversed
  one the character for index \<open>i\<close> sits at place \<open>69 - i\<close> of the density-ordered
  palette, which does not increase.
\<close>

theorem indice_monotono:
  assumes "0 \<le> v1" "v1 \<le> v2" "v2 \<le> 255"
  shows "\<exists>i1 i2. indice v1 (length ASCII_CHARS_PADRAO) = Inr i1
           \<and> indice v2 (length ASCII_CHARS_PADRAO) = Inr i2
           \<and> i1 \<le> i2
           \<and> py_index (paleta False) i1 = Inr (ASCII_CHARS_PADRAO ! nat i1)
           \<and> py_index (paleta False) i2 = Inr (ASCII_CHARS_PADRAO ! nat i2)
           \<and> py_index (paleta True) i1 = Inr (ASCII_CHARS_PADRAO ! nat (69 - i1))
           \<and> py_index (paleta True) i2 = Inr (ASCII_CHARS_PADRAO ! nat (69 - i2))
           \<and> 69 - i2 \<le> 69 - i1"
proof -
  have v: "0 \<le> v1" "v1 \<le> 255" "0 \<le> v2" "v2 \<le> 255" using assms by auto
  have i: "indice v1 (length ASCII_CHARS_PADRAO) = Inr (69 * v1 div 255)"
          "indice v2 (length ASCII_CHARS_PADRAO) = Inr (69 * v2 div 255)"
    using v by (simp_all add: length_ASCII_CHARS_PADRAO indice_luminancia)
  have m: "69 * v1 div 255 \<le> 69 * v2 div 255"
    using assms(2) by (intro zdiv_mono1) auto
  have fwd: "py_index (paleta False) j = Inr (ASCII_CHARS_PADRAO ! nat j)"
    if "0 \<le> j" "j \<le> 69" for j
    using that py_index_in_range [of j "paleta False"]
    by (simp add: length_paleta) (simp add: paleta_def)
  have bwd: "py_index (paleta True) j = Inr (ASCII_CHARS_PADRAO ! nat (69 - j))"
    if "0 \<le> j" "j \<le> 69" for j
  proof -
    have "nat j < length ASCII_CHARS_PADRAO"
      using that by (simp add: length_ASCII_CHARS_PADRAO)
    then have "rev ASCII_CHARS_PADRAO ! nat j
                 = ASCII_CHARS_PADRAO ! (length ASCII_CHARS_PADRAO - Suc (nat j))"
      by (rule rev_nth)
    also have "length ASCII_CHARS_PADRAO - Suc (nat j) = nat (69 - j)"
      using that by (simp add: length_ASCII_CHARS_PADRAO)
    finally show ?thesis
      using that py_index_in_range [of j "paleta True"]
      by (simp add: length_paleta) (simp add: paleta_def)
  qed
  note b = quantizacao_bounds [OF v(1,2)] quantizacao_bounds [OF v(3,4)]
  show ?thesis
    using i m fwd [OF b(1,2)] fwd [OF b(3,4)] bwd [OF b(1,2)] bwd [OF b(3,4)]
    by auto
qed

theorem indice_monotono_witness:
  "indice 26 (length ASCII_CHARS_PADRAO) = Inr 7
     \<and> indice 200 (length ASCII_CHARS_PADRAO) = Inr 54
     \<and> py_index (paleta True) 7 = Inr (CHR '':'')
     \<and> py_index (paleta True) 54 = Inr (CHR ''d'')"
proof -
  have h: "(0::int) \<le> 26" "(26::int) \<le> 200" "(200::int) \<le> 255" by simp_all
  have c: "indice 26 70 = Inr 7" "indice 200 70 = Inr 54" by code_simp+
  have k: "ASCII_CHARS_PADRAO ! nat (69 - 7) = CHR '':''"
          "ASCII_CHARS_PADRAO ! nat (69 - 54) = CHR ''d''" by code_simp+
  from indice_monotono [OF h] c k show ?thesis
    by (auto simp: length_ASCII_CHARS_PADRAO)
qed

text \<open>
  C8. Without the flag, an all-black image (every luminance 0) maps to \<open>palette[0]\<close> at
  every position, and an all-white one (every luminance 255) to \<open>palette[N - 1]\<close>, the
  last character of the palette.
\<close>

theorem preto_e_branco:
  "(list_all (\<lambda>p. p = Gray 0) (getdata imagem) \<longrightarrow>
      mapear_pixels_para_ascii imagem False
        = Inr (replicate (length (getdata imagem)) (ASCII_CHARS_PADRAO ! 0)))
   \<and> (list_all (\<lambda>p. p = Gray 255) (getdata imagem) \<longrightarrow>
      mapear_pixels_para_ascii imagem False
        = Inr (replicate (length (getdata imagem))
                 (ASCII_CHARS_PADRAO ! (length ASCII_CHARS_PADRAO - 1))))"
proof (intro conjI impI)
  assume a: "list_all (\<lambda>p. p = Gray 0) (getdata imagem)"
  then have "list_all luminancia_valida (getdata imagem)"
    by (auto simp: list_all_iff luminancia_valida_def)
  from mapear_pixels_luminancias [OF this, of False]
  have "mapear_pixels_para_ascii imagem False
          = Inr (map (\<lambda>p. ASCII_CHARS_PADRAO ! nat (69 * luminancia p div 255)) (getdata imagem))"
    by (simp add: paleta_def)
  also have "map (\<lambda>p. ASCII_CHARS_PADRAO ! nat (69 * luminancia p div 255)) (getdata imagem)
               = replicate (length (getdata imagem)) (ASCII_CHARS_PADRAO ! 0)"
    using a by (auto simp: list_all_iff luminancia_def map_replicate_const [symmetric] intro!: map_cong)
  finally show "mapear_pixels_para_ascii imagem False
        = Inr (replicate (length (getdata imagem)) (ASCII_CHARS_PADRAO ! 0))" .
next
  assume a: "list_all (\<lambda>p. p = Gray 255) (getdata imagem)"
  then have "list_all luminancia_valida (getdata imagem)"
    by (auto simp: list_all_iff luminancia_valida_def)
  from mapear_pixels_luminancias [OF this, of False]
  have "mapear_pixels_para_ascii imagem False
          = Inr (map (\<lambda>p. ASCII_CHARS_PADRAO ! nat (69 * luminancia p div 255)) (getdata imagem))"
    by (simp add: paleta_def)
  also have "map (\<lambda>p. ASCII_CHARS_PADRAO ! nat (69 * luminancia p div 255)) (getdata imagem)
               = replicate (length (getdata imagem))
                   (ASCII_CHARS_PADRAO ! (length ASCII_CHARS_PADRAO - 1))"
    using a by (auto simp: list_all_iff luminancia_def length_ASCII_CHARS_PADRAO
                  map_replicate_const [symmetric] intro!: map_cong)
  finally show "mapear_pixels_para_ascii imagem False
        = Inr (replicate (length (getdata imagem))
                 (ASCII_CHARS_PADRAO ! (length ASCII_CHARS_PADRAO - 1)))" .
qed

theorem preto_e_branco_witness:
  "mapear_pixels_para_ascii \<lparr>img_size = (3, 1), getdata = replicate 3 (Gray 0)\<rparr> False
      = Inr ''$$$''
   \<and> mapear_pixels_para_ascii \<lparr>img_size = (2, 1), getdata = replicate 2 (Gray 255)\<rparr> False
      = Inr ''  ''"
proof -
  have h0: "list_all (\<lambda>p. p = Gray 0)
              (getdata \<lparr>img_size = (3, 1), getdata = replicate 3 (Gray 0)\<rparr>)"
    by (simp add: list_all_iff)
  have h1: "list_all (\<lambda>p. p = Gray 255)
              (getdata \<lparr>img_size = (2, 1), getdata = replicate 2 (Gray 255)\<rparr>)"
    by (simp add: list_all_iff)
  have k: "ASCII_CHARS_PADRAO ! 0 = CHR ''$''" "ASCII_CHARS_PADRAO ! 69 = CHR '' ''"
    by code_simp+
  have r: "replicate 3 (CHR ''$'') = ''$$$''" "replicate 2 (CHR '' '') = ''  ''"
    by (simp_all add: numeral_2_eq_2 numeral_3_eq_3)
  from preto_e_branco [of "\<lparr>img_size = (3, 1), getdata = replicate 3 (Gray 0)\<rparr>"]
       preto_e_branco [of "\<lparr>img_size = (2, 1), getdata = replicate 2 (Gray 255)\<rparr>"]
       h0 h1 k r
  show ?thesis by (simp add: length_ASCII_CHARS_PADRAO)
qed

section \<open>The line formatter\<close>

lemma linhas_blocos:
  assumes "0 < w" "length s = i + w * h"
  shows "\<exists>ls. linhas s w i arte = arte @ concat (map (\<lambda>l. l @ [newline]) ls)
            \<and> length ls = h \<and> (\<forall>l \<in> set ls. length l = w) \<and> concat ls = drop i s"
  using assms
proof (induction h arbitrary: i arte)
  case 0
  then have "linhas s w i arte = arte"
    by (subst linhas.simps) simp
  with 0 show ?case by simp
next
  case (Suc h)
  let ?l = "take w (drop i s)"
  have lt: "i < length s" using Suc.prems by simp
  have len: "length ?l = w" using Suc.prems by simp
  have step: "linhas s w i arte = linhas s w (i + w) (arte @ ?l @ [newline])"
    using lt Suc.prems(1) by (subst linhas.simps) simp
  from Suc.prems have "length s = (i + w) + w * h" by simp
  from Suc.IH [OF Suc.prems(1) this, of "arte @ ?l @ [newline]"]
  obtain ls where ls: "linhas s w (i + w) (arte @ ?l @ [newline])
                         = (arte @ ?l @ [newline]) @ concat (map (\<lambda>l. l @ [newline]) ls)"
      "length ls = h" "\<forall>l \<in> set ls. length l = w" "concat ls = drop (i + w) s"
    by blast
  have "?l @ drop (i + w) s = drop i s"
    by (metis add.commute append_take_drop_id drop_drop)
  with ls step len show ?case
    by (intro exI [of _ "?l # ls"]) simp
qed

lemma linhas_fatias:
  assumes "0 < w" "length s = i + w * h"
  shows "linhas s w i arte
           = arte @ concat (map (\<lambda>k. take w (drop (i + k * w) s) @ [newline]) [0..<h])"
  using assms
proof (induction h arbitrary: i arte)
  case 0
  then have "linhas s w i arte = arte"
    by (subst linhas.simps) simp
  then show ?case by simp
next
  case (Suc h)
  have step: "linhas s w i arte = linhas s w (i + w) (arte @ take w (drop i s) @ [newline])"
    using Suc.prems by (subst linhas.simps) simp
  from Suc.prems have "length s = (i + w) + w * h" by simp
  from Suc.IH [OF Suc.prems(1) this, of "arte @ take w (drop i s) @ [newline]"]
  have ih: "linhas s w (i + w) (arte @ take w (drop i s) @ [newline])
              = (arte @ take w (drop i s) @ [newline])
                  @ concat (map (\<lambda>k. take w (drop (i + w + k * w) s) @ [newline]) [0..<h])" .
  have up: "[0..<Suc h] = 0 # map Suc [0..<h]"
    by (simp only: map_Suc_upt upt_conv_Cons [of 0 "Suc h"] zero_less_Suc)
  have "concat (map (\<lambda>k. take w (drop (i + k * w) s) @ [newline]) [0..<Suc h])
          = (take w (drop i s) @ [newline])
              @ concat (map (\<lambda>k. take w (drop (i + w + k * w) s) @ [newline]) [0..<h])"
    unfolding up by (simp add: comp_def add.assoc)
  with step ih show ?case by simp
qed

lemma linhas_termina_em_quebra:
  "linhas s w i arte = arte \<or> last (linhas s w i arte) = newline"
proof (induction s w i arte rule: linhas.induct)
  case (1 s w i arte)
  show ?case
  proof (cases "0 < w \<and> i < length s")
    case True
    then have "linhas s w i arte = linhas s w (i + w) (arte @ take w (drop i s) @ [newline])"
      by (subst linhas.simps) simp
    with 1 [OF True] show ?thesis by auto
  next
    case False
    then show ?thesis by (subst linhas.simps) auto
  qed
qed

lemma linhas_list_all2:
  assumes "list_all2 R s1 s2" "list_all2 Q a1 a2" "Q newline newline"
    and "\<And>x y. R x y \<Longrightarrow> Q x y"
  shows "list_all2 Q (linhas s1 w i a1) (linhas s2 w i a2)"
  using assms(1,2)
proof (induction s1 w i a1 arbitrary: a2 rule: linhas.induct)
  case (1 s1 w i a1)
  have len: "length s1 = length s2" using "1.prems"(1) by (rule list_all2_lengthD)
  show ?case
  proof (cases "0 < w \<and> i < length s1")
    case True
    have e1: "linhas s1 w i a1 = linhas s1 w (i + w) (a1 @ take w (drop i s1) @ [newline])"
      using True by (subst linhas.simps) simp
    have e2: "linhas s2 w i a2 = linhas s2 w (i + w) (a2 @ take w (drop i s2) @ [newline])"
      using True len by (subst linhas.simps) simp
    have "list_all2 R (take w (drop i s1)) (take w (drop i s2))"
      using "1.prems"(1) by (intro list_all2_takeI list_all2_dropI)
    then have "list_all2 Q (take w (drop i s1)) (take w (drop i s2))"
      using assms(4) by (rule list_all2_mono)
    then have "list_all2 Q (a1 @ take w (drop i s1) @ [newline])
                 (a2 @ take w (drop i s2) @ [newline])"
      using "1.prems"(2) assms(3) by (intro list_all2_appendI) simp_all
    from "1.IH" [OF True "1.prems"(1) this] show ?thesis
      by (simp only: e1 e2)
  next
    case False
    have e1: "linhas s1 w i a1 = a1"
      using False by (subst linhas.simps) auto
    have e2: "linhas s2 w i a2 = a2"
      using False len by (subst linhas.simps) auto
    from "1.prems"(2) show ?thesis
      by (simp only: e1 e2)
  qed
qed

lemma arte_ascii_final_list_all2:
  assumes "list_all2 R s1 s2" "Q newline newline" "\<And>x y. R x y \<Longrightarrow> Q x y"
    and "arte_ascii_final s1 w = Inr a1"
  shows "\<exists>a2. arte_ascii_final s2 w = Inr a2 \<and> list_all2 Q a1 a2"
proof -
  have "list_all2 Q (linhas s1 (nat w) 0 []) (linhas s2 (nat w) 0 [])"
    using assms(1) _ assms(2,3) by (rule linhas_list_all2) simp
  with assms(4) show ?thesis
    by (auto simp: arte_ascii_final_def split: if_splits)
qed

lemma arte_ascii_final_termina_em_quebra:
  assumes "arte_ascii_final s w = Inr a"
  shows "a = [] \<or> last a = newline"
  using assms linhas_termina_em_quebra [of s "nat w" 0 "[]"]
  by (auto simp: arte_ascii_final_def split: if_splits)

section \<open>The mirrored palette\<close>

lemma espelhados_nth:
  assumes "k < length ASCII_CHARS_PADRAO"
  shows "espelhados (ASCII_CHARS_PADRAO ! k) (rev ASCII_CHARS_PADRAO ! k)"
proof -
  have "rev ASCII_CHARS_PADRAO ! k
          = ASCII_CHARS_PADRAO ! (length ASCII_CHARS_PADRAO - 1 - k)"
    using assms by (simp add: rev_nth)
  with assms show ?thesis
    unfolding espelhados_def list_ex_iff by auto
qed

lemma py_index_espelhado:
  assumes "py_index ASCII_CHARS_PADRAO i = Inr c1"
  shows "\<exists>c2. py_index (rev ASCII_CHARS_PADRAO) i = Inr c2 \<and> espelhados c1 c2"
proof -
  define j where "j = (if i < 0 then i + int (length ASCII_CHARS_PADRAO) else i)"
  from assms have r: "0 \<le> j" "j < int (length ASCII_CHARS_PADRAO)"
      and c1: "c1 = ASCII_CHARS_PADRAO ! nat j"
    by (auto simp: py_index_def j_def Let_def split: if_splits)
  have "py_index (rev ASCII_CHARS_PADRAO) i = Inr (rev ASCII_CHARS_PADRAO ! nat j)"
    using r by (auto simp: py_index_def j_def Let_def)
  moreover have "espelhados c1 (rev ASCII_CHARS_PADRAO ! nat j)"
    unfolding c1 using r by (intro espelhados_nth) simp
  ultimately show ?thesis by blast
qed

lemma mapear_loop_espelhado:
  assumes "mapear_loop ASCII_CHARS_PADRAO ps acc1 = Inr s1" "list_all2 espelhados acc1 acc2"
  shows "\<exists>s2. mapear_loop (rev ASCII_CHARS_PADRAO) ps acc2 = Inr s2
            \<and> list_all2 espelhados s1 s2"
  using assms
proof (induction ps arbitrary: acc1 acc2)
  case Nil
  then show ?case by simp
next
  case (Cons p ps)
  from Cons.prems(1) obtain v where p: "p = Gray v"
    by (cases p) auto
  from Cons.prems(1) obtain i c1 where i: "indice v (length ASCII_CHARS_PADRAO) = Inr i"
      and c1: "py_index ASCII_CHARS_PADRAO i = Inr c1"
      and rest: "mapear_loop ASCII_CHARS_PADRAO ps (acc1 @ [c1]) = Inr s1"
    by (auto simp: p bindE_def split: sum.splits)
  from py_index_espelhado [OF c1] obtain c2
    where c2: "py_index (rev ASCII_CHARS_PADRAO) i = Inr c2" "espelhados c1 c2"
    by blast
  have "list_all2 espelhados (acc1 @ [c1]) (acc2 @ [c2])"
    using Cons.prems(2) c2(2) by (intro list_all2_appendI) simp_all
  from Cons.IH [OF rest this] i c2(1) show ?case
    by (simp add: p bindE_def)
qed

lemma mapear_pixels_espelhado:
  assumes "mapear_pixels_para_ascii g False = Inr s1"
  shows "\<exists>s2. mapear_pixels_para_ascii g True = Inr s2 \<and> list_all2 espelhados s1 s2"
  using mapear_loop_espelhado [of "getdata g" "[]" s1 "[]"] assms
  by (simp add: mapear_pixels_para_ascii_def paleta_def)

section \<open>The orchestrator\<close>

lemma gerar_sucesso:
  assumes "image_open lib caminho = Inr imagem"
    and "nova_altura (img_size imagem) largura = Inr altura"
    and "image_resize lib imagem (largura, altura) = Inr r"
    and "image_convert_L lib r = Inr g"
    and "mapear_pixels_para_ascii g invertido = Inr s"
    and "arte_ascii_final s (fst (img_size r)) = Inr arte"
  shows "gerar_arte_ascii lib caminho largura invertido
           = ([CallOpen caminho, CallResize largura altura, CallConvert, Print arte], None)"
  using assms
  by (simp add: gerar_arte_ascii_def redimensionar_imagem_def
        converter_para_escala_de_cinza_def)

lemma gerar_retorna:
  assumes "image_open lib caminho = Inr imagem"
    and "gerar_arte_ascii lib caminho largura invertido = (evs, None)"
  shows "\<exists>altura r g s arte.
           nova_altura (img_size imagem) largura = Inr altura
         \<and> image_resize lib imagem (largura, altura) = Inr r
         \<and> image_convert_L lib r = Inr g
         \<and> mapear_pixels_para_ascii g invertido = Inr s
         \<and> arte_ascii_final s (fst (img_size r)) = Inr arte
         \<and> evs = [CallOpen caminho, CallResize largura altura, CallConvert, Print arte]"
  using assms
  by (auto simp: gerar_arte_ascii_def redimensionar_imagem_def
        converter_para_escala_de_cinza_def split: sum.splits)

lemma gerar_resize_falha:
  assumes "image_open lib caminho = Inr imagem"
    and "nova_altura (img_size imagem) largura = Inr altura"
    and "image_resize lib imagem (largura, altura) = Inl e"
  shows "gerar_arte_ascii lib caminho largura invertido
           = ([CallOpen caminho, CallResize largura altura], Some e)"
  using assms
  by (simp add: gerar_arte_ascii_def redimensionar_imagem_def)

lemma gerar_chama_resize:
  assumes "image_open lib caminho = Inr imagem"
    and "nova_altura (img_size imagem) largura = Inr altura"
  shows "take 2 (fst (gerar_arte_ascii lib caminho largura invertido))
           = [CallOpen caminho, CallResize largura altura]"
  using assms
  by (auto simp: gerar_arte_ascii_def redimensionar_imagem_def
        converter_para_escala_de_cinza_def numeral_2_eq_2 split: sum.splits)

section \<open>Claims about the orchestrator\<close>




text \<open>
  C6. For every image and width for which the run without the flag prints an art, the run
  with the flag makes the same calls and prints an art of the same length that is its
  mirror, position for position: a line break stays a line break, and where the one has
  \<open>palette[i]\<close> the other has \<open>palette[N - 1 - i]\<close>, \<open>N\<close> being the length of the palette.
\<close>

theorem arte_invertida_espelha:
  assumes "image_open lib caminho_imagem = Inr imagem"
    and "gerar_arte_ascii lib caminho_imagem largura False = (evs, None)"
  shows "\<exists>chamadas arte arte_invertida.
           evs = chamadas @ [Print arte]
         \<and> stdout_of chamadas = []
         \<and> gerar_arte_ascii lib caminho_imagem largura True
             = (chamadas @ [Print arte_invertida], None)
         \<and> list_all2 espelhados_ou_quebra arte arte_invertida"
proof -
  from gerar_retorna [OF assms] obtain altura r g s arte where
      a: "nova_altura (img_size imagem) largura = Inr altura"
      and r: "image_resize lib imagem (largura, altura) = Inr r"
      and g: "image_convert_L lib r = Inr g"
      and s: "mapear_pixels_para_ascii g False = Inr s"
      and arte: "arte_ascii_final s (fst (img_size r)) = Inr arte"
      and evs: "evs = [CallOpen caminho_imagem, CallResize largura altura, CallConvert,
                       Print arte]"
    by blast
  from mapear_pixels_espelhado [OF s] obtain s2 where
      s2: "mapear_pixels_para_ascii g True = Inr s2" "list_all2 espelhados s s2"
    by blast
  have "\<exists>a2. arte_ascii_final s2 (fst (img_size r)) = Inr a2
           \<and> list_all2 espelhados_ou_quebra arte a2"
    using s2(2) _ _ arte
    by (rule arte_ascii_final_list_all2) (simp_all add: espelhados_ou_quebra_def)
  then obtain a2 where a2: "arte_ascii_final s2 (fst (img_size r)) = Inr a2"
      "list_all2 espelhados_ou_quebra arte a2"
    by blast
  have "gerar_arte_ascii lib caminho_imagem largura True
          = ([CallOpen caminho_imagem, CallResize largura altura, CallConvert, Print a2], None)"
    using assms(1) a r g s2(1) a2(1) by (rule gerar_sucesso)
  with evs a2(2) show ?thesis
    by (intro exI [of _ "[CallOpen caminho_imagem, CallResize largura altura, CallConvert]"]
              exI [of _ arte] exI [of _ a2]) simp
qed

theorem arte_invertida_espelha_witness:
  "gerar_arte_ascii pillow_exemplo ''degrade.png'' 2 False
     = ([CallOpen ''degrade.png'', CallResize 2 2, CallConvert,
         Print (''$M'' @ [newline] @ ''{~'' @ [newline])], None)
   \<and> gerar_arte_ascii pillow_exemplo ''degrade.png'' 2 True
     = ([CallOpen ''degrade.png'', CallResize 2 2, CallConvert,
         Print ('' :'' @ [newline] @ ''Qd'' @ [newline])], None)
   \<and> list_all2 espelhados_ou_quebra
         (''$M'' @ [newline] @ ''{~'' @ [newline]) ('' :'' @ [newline] @ ''Qd'' @ [newline])"
proof -
  have h: "image_open pillow_exemplo ''degrade.png'' = Inr imagem_degrade"
    by (simp add: pillow_exemplo_def)
  have f: "gerar_arte_ascii pillow_exemplo ''degrade.png'' 2 False
     = ([CallOpen ''degrade.png'', CallResize 2 2, CallConvert,
         Print (''$M'' @ [newline] @ ''{~'' @ [newline])], None)"
    by code_simp
  have t: "gerar_arte_ascii pillow_exemplo ''degrade.png'' 2 True
     = ([CallOpen ''degrade.png'', CallResize 2 2, CallConvert,
         Print ('' :'' @ [newline] @ ''Qd'' @ [newline])], None)"
    by code_simp
  from arte_invertida_espelha [OF h f] t f show ?thesis
    by auto
qed

section \<open>The resized height\<close>

lemma sgn_int_nonneg: "0 \<le> sgn (m::int) \<longleftrightarrow> 0 \<le> m"
  by (simp add: sgn_if)

lemma scale2_nonneg: "0 \<le> n \<Longrightarrow> 0 \<le> scale2 n k"
  by (simp add: scale2_def)

lemma scale2_pos: "0 < n \<Longrightarrow> 0 < scale2 n k"
  by (simp add: scale2_def)

lemma round_half_even_div_nonneg:
  assumes "0 \<le> n" "0 < d"
  shows "0 \<le> round_half_even_div n d"
proof -
  have "0 \<le> n div d" using assms by (simp add: pos_imp_zdiv_nonneg_iff)
  then show ?thesis by (simp add: round_half_even_div_def Let_def)
qed

lemma fl_nonneg:
  assumes "0 \<le> n" "0 \<le> d"
  shows "0 \<le> fsgn (fl n d s)"
proof (cases "n = 0 \<or> d = 0")
  case True
  then show ?thesis by (auto simp: fl_def)
next
  case False
  with assms have pos: "0 < n" "0 < d" by auto
  then have nd: "0 < n * d" by simp
  have "0 \<le> round_half_even_div (scale2 \<bar>n\<bar> j) (scale2 \<bar>d\<bar> k)" for j k
    using pos by (intro round_half_even_div_nonneg scale2_nonneg scale2_pos) simp_all
  with pos nd show ?thesis
    by (simp add: fl_def Let_def sgn_int_nonneg)
qed

lemma float_of_int_nonneg:
  assumes "float_of_int n = Inr x" "0 \<le> n"
  shows "\<exists>m e. x = Finite m e \<and> 0 \<le> m"
proof -
  from assms(1) have x: "fl n 1 0 = x"
    by (cases "fl n 1 0") (simp_all add: float_of_int_def)
  from assms(1) x obtain m e where m: "x = Finite m e"
    by (cases x) (simp_all add: float_of_int_def)
  from fl_nonneg [of n 1 0] assms(2) x m have "0 \<le> m"
    by (simp add: sgn_int_nonneg)
  with m show ?thesis by simp
qed

lemma fmul_nonneg:
  assumes "0 \<le> fsgn x" "0 \<le> fsgn y"
  shows "0 \<le> fsgn (fmul x y)"
proof (cases x)
  case (Finite a e)
  note x = this
  show ?thesis
  proof (cases y)
    case (Finite b f)
    with x assms have "0 \<le> a * b" by (simp add: sgn_int_nonneg)
    with x Finite show ?thesis by (simp add: fl_nonneg)
  qed (use x assms in \<open>auto simp: signed_inf_def sgn_int_nonneg\<close>)
next
  case PosInf
  with assms show ?thesis
    by (cases y) (auto simp: signed_inf_def sgn_int_nonneg)
next
  case NegInf
  with assms show ?thesis by simp
next
  case NaN
  then show ?thesis by simp
qed

lemma py_int_nonneg:
  assumes "py_int x = Inr k" "0 \<le> fsgn x"
  shows "0 \<le> k"
proof (cases x)
  case (Finite m e)
  with assms have "0 \<le> m" by (simp add: sgn_int_nonneg)
  moreover have "0 \<le> \<bar>m\<bar> div 2 ^ nat (- e)"
    by (simp add: pos_imp_zdiv_nonneg_iff)
  ultimately show ?thesis using assms(1) Finite
    by (auto simp: sgn_int_nonneg)
qed (use assms in auto)

lemma fator_terminal_nonneg: "0 \<le> fsgn fator_terminal"
  unfolding fator_terminal_def by (rule fl_nonneg) simp_all

lemma nova_altura_nao_negativa:
  assumes "nova_altura (largura_original, altura_original) nova_largura = Inr altura"
    and "0 \<le> largura_original" "0 \<le> altura_original" "0 \<le> nova_largura"
  shows "0 \<le> altura"
proof -
  from assms(1) obtain fw fh proporcao fl_largura where
      fw: "float_of_int largura_original = Inr fw"
      and fh: "float_of_int altura_original = Inr fh"
      and pr: "fdiv fh fw = Inr proporcao"
      and fll: "float_of_int nova_largura = Inr fl_largura"
      and k: "py_int (fmul (fmul fl_largura proporcao) fator_terminal) = Inr altura"
    by (auto simp: nova_altura_def bindE_def split: sum.splits)
  from float_of_int_nonneg [OF fw assms(2)] obtain a e where a: "fw = Finite a e" "0 \<le> a"
    by blast
  from float_of_int_nonneg [OF fh assms(3)] obtain b f where b: "fh = Finite b f" "0 \<le> b"
    by blast
  from float_of_int_nonneg [OF fll assms(4)] have l: "0 \<le> fsgn fl_largura"
    by (auto simp: sgn_int_nonneg)
  from pr a b have "0 \<le> fsgn proporcao"
    by (auto simp: fl_nonneg split: if_splits)
  with l have "0 \<le> fsgn (fmul (fmul fl_largura proporcao) fator_terminal)"
    by (intro fmul_nonneg fator_terminal_nonneg)
  with k show ?thesis by (rule py_int_nonneg)
qed

section \<open>Claims about the size of the art\<close>

text \<open>
  C1 (as amended). For an image of size \<open>(w_orig, h_orig)\<close> with \<open>0 < w_orig\<close> and a
  target width \<open>0 < w\<close>, the height handed to the resize is the one line 27 computes,
  \<open>int((w * (h_orig / float(w_orig))) * 0.55)\<close> in binary64 arithmetic: a truncation, not a
  rounding. It is not negative, and when Pillow returns the resized image and its mode
  \<open>L\<close> version of that size, the art printed has exactly that many lines, each of exactly
  \<open>w\<close> characters followed by a line break.
\<close>

theorem linhas_e_colunas_da_arte:
  assumes "image_open lib caminho_imagem = Inr imagem"
    and "0 < fst (img_size imagem)" "0 \<le> snd (img_size imagem)" "0 < largura"
    and "nova_altura (img_size imagem) largura = Inr altura"
    and "image_resize lib imagem (largura, altura) = Inr r"
    and "img_size r = (largura, altura)"
    and "image_convert_L lib r = Inr g"
    and "imagem_cinza_de (largura, altura) g"
  shows "0 \<le> altura
     \<and> (\<exists>ls. gerar_arte_ascii lib caminho_imagem largura invertido
                 = ([CallOpen caminho_imagem, CallResize largura altura, CallConvert,
                     Print (concat (map (\<lambda>l. l @ [newline]) ls))], None)
             \<and> int (length ls) = altura
             \<and> (\<forall>l \<in> set ls. int (length l) = largura)
             \<and> mapear_pixels_para_ascii g invertido = Inr (concat ls))"
proof -
  obtain w0 h0 where sz: "img_size imagem = (w0, h0)" by (cases "img_size imagem")
  have alt: "0 \<le> altura"
    using assms(5) [unfolded sz]
    by (rule nova_altura_nao_negativa) (use assms(2-4) sz in simp_all)
  define s where "s = map (\<lambda>p. paleta invertido ! nat (69 * luminancia p div 255)) (getdata g)"
  have cinza: "list_all luminancia_valida (getdata g)"
      and len: "length (getdata g) = nat largura * nat altura"
    using assms(9) by (simp_all add: imagem_cinza_de_def)
  have m: "mapear_pixels_para_ascii g invertido = Inr s"
    unfolding s_def using cinza by (rule mapear_pixels_luminancias)
  have "length s = 0 + nat largura * nat altura"
    by (simp add: s_def len)
  with assms(4) have "\<exists>ls. linhas s (nat largura) 0 []
                         = [] @ concat (map (\<lambda>l. l @ [newline]) ls)
            \<and> length ls = nat altura \<and> (\<forall>l \<in> set ls. length l = nat largura)
            \<and> concat ls = drop 0 s"
    by (intro linhas_blocos) simp_all
  then obtain ls where
      ls1: "linhas s (nat largura) 0 [] = [] @ concat (map (\<lambda>l. l @ [newline]) ls)"
      and ls2: "length ls = nat altura"
      and ls3: "\<forall>l \<in> set ls. length l = nat largura"
      and ls4: "concat ls = drop 0 s"
    by (elim exE conjE)
  have a: "arte_ascii_final s (fst (img_size r)) = Inr (concat (map (\<lambda>l. l @ [newline]) ls))"
    using assms(4) ls1 by (simp add: arte_ascii_final_def assms(7))
  have run: "gerar_arte_ascii lib caminho_imagem largura invertido
          = ([CallOpen caminho_imagem, CallResize largura altura, CallConvert,
              Print (concat (map (\<lambda>l. l @ [newline]) ls))], None)"
    using assms(1,5,6,8) m a by (rule gerar_sucesso)
  have n: "int (length ls) = altura" using ls2 alt by simp
  have c: "\<forall>l \<in> set ls. int (length l) = largura" using ls3 assms(4) by simp
  have m': "mapear_pixels_para_ascii g invertido = Inr (concat ls)"
    using m ls4 by simp
  from run n c m' have "\<exists>ls. gerar_arte_ascii lib caminho_imagem largura invertido
                 = ([CallOpen caminho_imagem, CallResize largura altura, CallConvert,
                     Print (concat (map (\<lambda>l. l @ [newline]) ls))], None)
             \<and> int (length ls) = altura
             \<and> (\<forall>l \<in> set ls. int (length l) = largura)
             \<and> mapear_pixels_para_ascii g invertido = Inr (concat ls)"
    by (intro exI [of _ ls] conjI)
  with alt show ?thesis by (intro conjI)
qed

theorem linhas_e_colunas_da_arte_witness:
  "\<exists>ls. gerar_arte_ascii pillow_exemplo ''degrade.png'' 2 False
           = ([CallOpen ''degrade.png'', CallResize 2 2, CallConvert,
               Print (concat (map (\<lambda>l. l @ [newline]) ls))], None)
       \<and> int (length ls) = 2 \<and> (\<forall>l \<in> set ls. int (length l) = 2)"
proof -
  let ?r = "vizinho_mais_proximo imagem_degrade (2, 2)"
  let ?g = "?r\<lparr>getdata := map luma (getdata ?r)\<rparr>"
  have h1: "image_open pillow_exemplo ''degrade.png'' = Inr imagem_degrade"
    by (simp add: pillow_exemplo_def)
  have h2: "0 < fst (img_size imagem_degrade)" "0 \<le> snd (img_size imagem_degrade)"
    by (simp_all add: imagem_degrade_def)
  have h4: "(0::int) < 2" by simp
  have h5: "nova_altura (img_size imagem_degrade) 2 = Inr 2" by code_simp
  have h6: "image_resize pillow_exemplo imagem_degrade (2, 2) = Inr ?r"
    by (simp add: pillow_exemplo_def)
  have h7: "img_size ?r = (2, 2)" by code_simp
  have h8: "image_convert_L pillow_exemplo ?r = Inr ?g"
    by (simp add: pillow_exemplo_def)
  have h9: "imagem_cinza_de (2, 2) ?g" by code_simp
  from linhas_e_colunas_da_arte [OF h1 h2 h4 h5 h6 h7 h8 h9, of False]
  show ?thesis by blast
qed

text \<open>
  C1 as the specification words it rounds the height. A 1 by 1 image at width 3 has
  \<open>3 * 1 / 1 * 0.55 = 1.65\<close>, which rounds to 2; the program computes 1 and prints one
  line.
\<close>

theorem altura_truncada_counterexample:
  "nova_altura (1, 1) 3 = Inr 1
     \<and> round (rat_of_int 3 * (rat_of_int 1 / rat_of_int 1) * (55 / 100)) = (2::int)
     \<and> gerar_arte_ascii pillow_exemplo ''ponto.png'' 3 False
          = ([CallOpen ''ponto.png'', CallResize 3 1, CallConvert,
              Print (''888'' @ [newline])], None)"
  by code_simp

text \<open>
  C9. A run that returns normally after opening the image has printed exactly one thing,
  the art that the formatter of lines 72 to 74 makes of the mapper's string, so standard
  output is that art followed by the line break of \<^verbatim>\<open>print\<close>: a blank line after the
  art's own final line break. When Pillow hands over the resized image and its mode
  \<open>L\<close> version of the requested size \<open>w\<close> by \<open>h\<close>, the art is the rendering of that
  image: \<open>h\<close> rows, row \<open>k\<close> holding for each of the pixels \<open>k * w\<close> to
  \<open>k * w + w - 1\<close> of the buffer, in order, the character
  \<open>palette[floor(v / 255 * 69)]\<close> of its luminance \<open>v\<close>, then a line break. For a 2 by 2
  white image at width 2 (resized to 2 by 1, both luminances 255) the art is two spaces
  and a line break.
\<close>

theorem saida_padrao:
  "(image_open lib caminho_imagem = Inr imagem
      \<and> gerar_arte_ascii lib caminho_imagem largura invertido = (evs, None)
    \<longrightarrow> (\<exists>altura r g s arte.
           nova_altura (img_size imagem) largura = Inr altura
         \<and> image_resize lib imagem (largura, altura) = Inr r
         \<and> image_convert_L lib r = Inr g
         \<and> mapear_pixels_para_ascii g invertido = Inr s
         \<and> arte_ascii_final s (fst (img_size r)) = Inr arte
         \<and> evs = [CallOpen caminho_imagem, CallResize largura altura, CallConvert,
                   Print arte]
         \<and> stdout_of evs = arte @ [newline] \<and> (arte = [] \<or> last arte = newline)))
   \<and> (image_open lib caminho_imagem = Inr imagem
      \<and> nova_altura (img_size imagem) largura = Inr altura
      \<and> image_resize lib imagem (largura, altura) = Inr r
      \<and> img_size r = (largura, altura)
      \<and> image_convert_L lib r = Inr g \<and> imagem_cinza_de (largura, altura) g
      \<and> 0 < largura
    \<longrightarrow> gerar_arte_ascii lib caminho_imagem largura invertido
          = ([CallOpen caminho_imagem, CallResize largura altura, CallConvert,
              Print (concat (map (\<lambda>k.
                  map (\<lambda>p. (if invertido then rev ASCII_CHARS_PADRAO
                             else ASCII_CHARS_PADRAO)
                              ! nat \<lfloor>rat_of_int (luminancia p) / 255 * 69\<rfloor>)
                    (take (nat largura) (drop (k * nat largura) (getdata g)))
                  @ [newline]) [0..<nat altura]))], None)
        \<and> stdout_of (fst (gerar_arte_ascii lib caminho_imagem largura invertido))
          = concat (map (\<lambda>k.
                  map (\<lambda>p. (if invertido then rev ASCII_CHARS_PADRAO
                             else ASCII_CHARS_PADRAO)
                              ! nat \<lfloor>rat_of_int (luminancia p) / 255 * 69\<rfloor>)
                    (take (nat largura) (drop (k * nat largura) (getdata g)))
                  @ [newline]) [0..<nat altura])
            @ [newline])
   \<and> (image_open lib caminho_imagem = Inr imagem \<and> img_size imagem = (2, 2)
      \<and> image_resize lib imagem (2, 1) = Inr r \<and> img_size r = (2, 1)
      \<and> image_convert_L lib r = Inr g \<and> getdata g = [Gray 255, Gray 255]
    \<longrightarrow> gerar_arte_ascii lib caminho_imagem 2 False
          = ([CallOpen caminho_imagem, CallResize 2 1, CallConvert,
              Print (''  '' @ [newline])], None)
        \<and> stdout_of (fst (gerar_arte_ascii lib caminho_imagem 2 False))
          = ''  '' @ [newline, newline])"
proof (intro conjI)
  show "image_open lib caminho_imagem = Inr imagem
      \<and> gerar_arte_ascii lib caminho_imagem largura invertido = (evs, None)
    \<longrightarrow> (\<exists>altura r g s arte.
           nova_altura (img_size imagem) largura = Inr altura
         \<and> image_resize lib imagem (largura, altura) = Inr r
         \<and> image_convert_L lib r = Inr g
         \<and> mapear_pixels_para_ascii g invertido = Inr s
         \<and> arte_ascii_final s (fst (img_size r)) = Inr arte
         \<and> evs = [CallOpen caminho_imagem, CallResize largura altura, CallConvert,
                   Print arte]
         \<and> stdout_of evs = arte @ [newline] \<and> (arte = [] \<or> last arte = newline))"
  proof (rule impI)
    assume "image_open lib caminho_imagem = Inr imagem
      \<and> gerar_arte_ascii lib caminho_imagem largura invertido = (evs, None)"
    then have o: "image_open lib caminho_imagem = Inr imagem"
        and e: "gerar_arte_ascii lib caminho_imagem largura invertido = (evs, None)"
      by simp_all
    from gerar_retorna [OF o e] obtain altura r' g' s arte where
        p: "nova_altura (img_size imagem) largura = Inr altura"
           "image_resize lib imagem (largura, altura) = Inr r'"
           "image_convert_L lib r' = Inr g'"
           "mapear_pixels_para_ascii g' invertido = Inr s"
           "arte_ascii_final s (fst (img_size r')) = Inr arte"
        and evs: "evs = [CallOpen caminho_imagem, CallResize largura altura, CallConvert,
                         Print arte]"
      by (elim exE conjE)
    have "stdout_of evs = arte @ [newline]" by (simp add: evs)
    moreover note arte_ascii_final_termina_em_quebra [OF p(5)]
    ultimately show "\<exists>altura r g s arte.
           nova_altura (img_size imagem) largura = Inr altura
         \<and> image_resize lib imagem (largura, altura) = Inr r
         \<and> image_convert_L lib r = Inr g
         \<and> mapear_pixels_para_ascii g invertido = Inr s
         \<and> arte_ascii_final s (fst (img_size r)) = Inr arte
         \<and> evs = [CallOpen caminho_imagem, CallResize largura altura, CallConvert,
                   Print arte]
         \<and> stdout_of evs = arte @ [newline] \<and> (arte = [] \<or> last arte = newline)"
      using p evs by (intro exI [of _ altura] exI [of _ r'] exI [of _ g'] exI [of _ s]
                        exI [of _ arte] conjI)
  qed
next
  let ?pal = "if invertido then rev ASCII_CHARS_PADRAO else ASCII_CHARS_PADRAO"
  let ?c = "\<lambda>p. ?pal ! nat \<lfloor>rat_of_int (luminancia p) / 255 * 69\<rfloor>"
  let ?arte = "concat (map (\<lambda>k. map ?c (take (nat largura) (drop (k * nat largura) (getdata g)))
                  @ [newline]) [0..<nat altura])"
  show "image_open lib caminho_imagem = Inr imagem
      \<and> nova_altura (img_size imagem) largura = Inr altura
      \<and> image_resize lib imagem (largura, altura) = Inr r
      \<and> img_size r = (largura, altura)
      \<and> image_convert_L lib r = Inr g \<and> imagem_cinza_de (largura, altura) g
      \<and> 0 < largura
    \<longrightarrow> gerar_arte_ascii lib caminho_imagem largura invertido
          = ([CallOpen caminho_imagem, CallResize largura altura, CallConvert,
              Print ?arte], None)
        \<and> stdout_of (fst (gerar_arte_ascii lib caminho_imagem largura invertido))
          = ?arte @ [newline]"
  proof (rule impI)
    assume a: "image_open lib caminho_imagem = Inr imagem
      \<and> nova_altura (img_size imagem) largura = Inr altura
      \<and> image_resize lib imagem (largura, altura) = Inr r
      \<and> img_size r = (largura, altura)
      \<and> image_convert_L lib r = Inr g \<and> imagem_cinza_de (largura, altura) g
      \<and> 0 < largura"
    define s where "s = map ?c (getdata g)"
    have cinza: "list_all luminancia_valida (getdata g)"
        and len: "length (getdata g) = nat largura * nat altura"
      using a by (simp_all add: imagem_cinza_de_def)
    have "mapear_pixels_para_ascii g invertido
            = Inr (map (\<lambda>p. paleta invertido ! nat (69 * luminancia p div 255)) (getdata g))"
      using cinza by (rule mapear_pixels_luminancias)
    then have m: "mapear_pixels_para_ascii g invertido = Inr s"
      by (simp only: s_def floor_quantizacao paleta_def)
    have w: "0 < nat largura" using a by simp
    have "length s = 0 + nat largura * nat altura" by (simp add: s_def len)
    from linhas_fatias [OF w this, of "[]"]
    have "linhas s (nat largura) 0 []
            = concat (map (\<lambda>k. take (nat largura) (drop (k * nat largura) s) @ [newline])
                        [0..<nat altura])"
      by simp
    also have "\<dots> = ?arte"
      by (simp add: s_def take_map drop_map)
    finally have "arte_ascii_final s (fst (img_size r)) = Inr ?arte"
      using a by (simp add: arte_ascii_final_def)
    with a m have run: "gerar_arte_ascii lib caminho_imagem largura invertido
          = ([CallOpen caminho_imagem, CallResize largura altura, CallConvert,
              Print ?arte], None)"
      by (intro gerar_sucesso [where imagem = imagem and r = r and g = g and s = s])
         simp_all
    then show "gerar_arte_ascii lib caminho_imagem largura invertido
          = ([CallOpen caminho_imagem, CallResize largura altura, CallConvert,
              Print ?arte], None)
        \<and> stdout_of (fst (gerar_arte_ascii lib caminho_imagem largura invertido))
          = ?arte @ [newline]"
      by simp
  qed
next
  show "image_open lib caminho_imagem = Inr imagem \<and> img_size imagem = (2, 2)
      \<and> image_resize lib imagem (2, 1) = Inr r \<and> img_size r = (2, 1)
      \<and> image_convert_L lib r = Inr g \<and> getdata g = [Gray 255, Gray 255]
    \<longrightarrow> gerar_arte_ascii lib caminho_imagem 2 False
          = ([CallOpen caminho_imagem, CallResize 2 1, CallConvert,
              Print (''  '' @ [newline])], None)
        \<and> stdout_of (fst (gerar_arte_ascii lib caminho_imagem 2 False))
          = ''  '' @ [newline, newline]"
  proof (rule impI)
    assume a: "image_open lib caminho_imagem = Inr imagem \<and> img_size imagem = (2, 2)
      \<and> image_resize lib imagem (2, 1) = Inr r \<and> img_size r = (2, 1)
      \<and> image_convert_L lib r = Inr g \<and> getdata g = [Gray 255, Gray 255]"
    have h: "nova_altura (2, 2) 2 = Inr 1" by code_simp
    have m: "mapear_loop ASCII_CHARS_PADRAO [Gray 255, Gray 255] [] = Inr ''  ''"
      by code_simp
    have f: "arte_ascii_final ''  '' 2 = Inr (''  '' @ [newline])"
      by code_simp
    have run: "gerar_arte_ascii lib caminho_imagem 2 False
          = ([CallOpen caminho_imagem, CallResize 2 1, CallConvert,
              Print (''  '' @ [newline])], None)"
      using a h m f
      by (intro gerar_sucesso [where imagem = imagem and r = r and g = g and s = "''  ''"])
         (simp_all add: mapear_pixels_para_ascii_def paleta_def)
    then show "gerar_arte_ascii lib caminho_imagem 2 False
          = ([CallOpen caminho_imagem, CallResize 2 1, CallConvert,
              Print (''  '' @ [newline])], None)
        \<and> stdout_of (fst (gerar_arte_ascii lib caminho_imagem 2 False))
          = ''  '' @ [newline, newline]"
      by simp
  qed
qed

theorem saida_padrao_witness:
  "gerar_arte_ascii pillow_exemplo ''degrade.png'' 2 False
     = ([CallOpen ''degrade.png'', CallResize 2 2, CallConvert,
         Print (''$M'' @ [newline] @ ''{~'' @ [newline])], None)
   \<and> stdout_of (fst (gerar_arte_ascii pillow_exemplo ''degrade.png'' 2 False))
     = ''$M'' @ [newline] @ ''{~'' @ [newline, newline]
   \<and> gerar_arte_ascii pillow_exemplo ''branca.png'' 2 False
     = ([CallOpen ''branca.png'', CallResize 2 1, CallConvert, Print (''  '' @ [newline])],
        None)
   \<and> stdout_of (fst (gerar_arte_ascii pillow_exemplo ''branca.png'' 2 False))
     = ''  '' @ [newline, newline]"
proof -
  let ?r = "vizinho_mais_proximo imagem_degrade (2, 2)"
  let ?g = "?r\<lparr>getdata := map luma (getdata ?r)\<rparr>"
  let ?A = "concat (map (\<lambda>k.
                  map (\<lambda>p. (if False then rev ASCII_CHARS_PADRAO else ASCII_CHARS_PADRAO)
                              ! nat \<lfloor>rat_of_int (luminancia p) / 255 * 69\<rfloor>)
                    (take (nat 2) (drop (k * nat 2) (getdata ?g)))
                  @ [newline]) [0..<nat 2])"
  let ?rb = "vizinho_mais_proximo imagem_branca (2, 1)"
  let ?gb = "?rb\<lparr>getdata := map luma (getdata ?rb)\<rparr>"
  have hd: "image_open pillow_exemplo ''degrade.png'' = Inr imagem_degrade
      \<and> nova_altura (img_size imagem_degrade) 2 = Inr 2
      \<and> image_resize pillow_exemplo imagem_degrade (2, 2) = Inr ?r
      \<and> img_size ?r = (2, 2)
      \<and> image_convert_L pillow_exemplo ?r = Inr ?g \<and> imagem_cinza_de (2, 2) ?g
      \<and> (0::int) < 2"
    by code_simp
  have hb: "image_open pillow_exemplo ''branca.png'' = Inr imagem_branca
      \<and> img_size imagem_branca = (2, 2)
      \<and> image_resize pillow_exemplo imagem_branca (2, 1) = Inr ?rb \<and> img_size ?rb = (2, 1)
      \<and> image_convert_L pillow_exemplo ?rb = Inr ?gb \<and> getdata ?gb = [Gray 255, Gray 255]"
    by code_simp
  have c: "?A = ''$M'' @ [newline] @ ''{~'' @ [newline]"
    by code_simp
  from saida_padrao [of pillow_exemplo "''degrade.png''" imagem_degrade 2 False "[]" 2 ?r ?g] hd
  have d: "gerar_arte_ascii pillow_exemplo ''degrade.png'' 2 False
             = ([CallOpen ''degrade.png'', CallResize 2 2, CallConvert, Print ?A], None)
         \<and> stdout_of (fst (gerar_arte_ascii pillow_exemplo ''degrade.png'' 2 False))
             = ?A @ [newline]"
    by blast
  from saida_padrao [of pillow_exemplo "''branca.png''" imagem_branca 2 False "[]" 1 ?rb ?gb] hb
  have b: "gerar_arte_ascii pillow_exemplo ''branca.png'' 2 False
     = ([CallOpen ''branca.png'', CallResize 2 1, CallConvert, Print (''  '' @ [newline])],
        None)
   \<and> stdout_of (fst (gerar_arte_ascii pillow_exemplo ''branca.png'' 2 False))
     = ''  '' @ [newline, newline]"
    by blast
  from d b show ?thesis by (simp only: c) simp
qed

section \<open>Claims about degenerate sizes\<close>

text \<open>
  C4 (as amended). The program does not validate the target width. With a width of zero
  or less, once the image is open and line 27 has computed a height, the next thing the
  orchestrator does is to call Pillow's resize with that width and that height; when
  that call raises, the exception reaches the caller of the orchestrator and nothing is
  printed.
\<close>

theorem largura_nao_positiva_chega_ao_resize:
  assumes "largura \<le> 0"
    and "image_open lib caminho_imagem = Inr imagem"
    and "nova_altura (img_size imagem) largura = Inr altura"
  shows "take 2 (fst (gerar_arte_ascii lib caminho_imagem largura invertido))
           = [CallOpen caminho_imagem, CallResize largura altura]
       \<and> (\<forall>e. image_resize lib imagem (largura, altura) = Inl e \<longrightarrow>
             gerar_arte_ascii lib caminho_imagem largura invertido
               = ([CallOpen caminho_imagem, CallResize largura altura], Some e))"
  using gerar_chama_resize [OF assms(2,3)] gerar_resize_falha [OF assms(2,3)]
  by simp

theorem largura_nao_positiva_chega_ao_resize_witness:
  "take 2 (fst (gerar_arte_ascii pillow_exemplo ''ponto.png'' (- 3) False))
     = [CallOpen ''ponto.png'', CallResize (- 3) (- 1)]
   \<and> gerar_arte_ascii pillow_exemplo ''ponto.png'' (- 3) False
     = ([CallOpen ''ponto.png'', CallResize (- 3) (- 1)], Some ValueError)"
proof -
  have h1: "(- 3 :: int) \<le> 0" by simp
  have h2: "image_open pillow_exemplo ''ponto.png'' = Inr imagem_ponto"
    by (simp add: pillow_exemplo_def)
  have h3: "nova_altura (img_size imagem_ponto) (- 3) = Inr (- 1)" by code_simp
  have e: "image_resize pillow_exemplo imagem_ponto (- 3, - 1) = Inl ValueError"
    by (simp add: pillow_exemplo_def)
  from largura_nao_positiva_chega_ao_resize [OF h1 h2 h3, of False] e
  show ?thesis by simp
qed

text \<open>
  C4 as the specification words it has a width of zero rejected before the resize is
  attempted. The run below calls the resize with the size 0 by 0, and the only error is
  the one the library raises from that call.
\<close>

theorem largura_zero_counterexample:
  "gerar_arte_ascii pillow_exemplo ''ponto.png'' 0 False
     = ([CallOpen ''ponto.png'', CallResize 0 0], Some ValueError)"
  by code_simp

section \<open>Error bounds of the binary64 rounding\<close>

text \<open>
  A rounding that stays clear of overflow and of the subnormal range moves its exact
  argument by a relative error of at most \<open>2 ^ - 53\<close>. Line 27 rounds six times; for
  sizes up to \<open>2 ^ 31\<close> the accumulated error is far smaller than the distance
  \<open>1 / (20 * w_orig)\<close> between an exact product below 1 and 1 itself.
\<close>

lemma bit_length_nonneg: "0 \<le> bit_length n"
proof (induction n rule: bit_length.induct)
  case (1 n)
  then show ?case
    by (subst bit_length.simps) simp
qed

lemma bit_length_pos: "0 < n \<Longrightarrow> 0 < bit_length n"
  using bit_length_nonneg [of "n div 2"] by (subst bit_length.simps) simp

lemma bit_length_bounds:
  assumes "0 < n"
  shows "2 ^ nat (bit_length n - 1) \<le> n \<and> n < 2 ^ nat (bit_length n)"
  using assms
proof (induction n rule: bit_length.induct)
  case (1 n)
  show ?case
  proof (cases "0 < n div 2")
    case False
    with "1.prems" have n: "n = 1" by auto
    have "bit_length 1 = 1"
      by (simp add: bit_length.simps [of 1] bit_length.simps [of 0])
    with n show ?thesis by simp
  next
    case True
    define k where "k = bit_length (n div 2)"
    have k: "0 < k" unfolding k_def using True by (rule bit_length_pos)
    have b: "bit_length n = 1 + k"
      using "1.prems" by (subst bit_length.simps) (simp add: k_def)
    from "1.IH" True "1.prems" have ih: "2 ^ nat (k - 1) \<le> n div 2" "n div 2 < 2 ^ nat k"
      by (simp_all add: k_def)
    have e: "nat (1 + k - 1) = Suc (nat (k - 1))" "nat (1 + k) = Suc (nat k)"
      using k by simp_all
    have "2 * 2 ^ nat (k - 1) \<le> n" using ih(1) by linarith
    moreover have "n < 2 * 2 ^ nat k" using ih(2) by linarith
    ultimately have "2 ^ Suc (nat (k - 1)) \<le> n \<and> n < 2 ^ Suc (nat k)" by simp
    then show ?thesis by (simp only: b e)
  qed
qed

lemma bit_length_powi:
  assumes "0 < n"
  shows "2 powi (bit_length n - 1) \<le> rat_of_int n" "rat_of_int n < 2 powi (bit_length n)"
proof -
  from bit_length_pos [OF assms] have p: "0 \<le> bit_length n - 1" "0 \<le> bit_length n" by simp_all
  from bit_length_bounds [OF assms]
  have "rat_of_int (2 ^ nat (bit_length n - 1)) \<le> rat_of_int n"
       "rat_of_int n < rat_of_int (2 ^ nat (bit_length n))"
    by (simp_all only: of_int_le_iff of_int_less_iff)
  then show "2 powi (bit_length n - 1) \<le> rat_of_int n" "rat_of_int n < 2 powi (bit_length n)"
    using p by (simp_all add: power_int_nonneg_exp)
qed

lemma scale2_ratio:
  assumes "0 < q"
  shows "rat_of_int (scale2 p k) / rat_of_int (scale2 q (- k))
           = rat_of_int p / rat_of_int q * 2 powi k"
proof (cases "0 \<le> k")
  case True
  then show ?thesis
    by (cases "k = 0") (simp_all add: scale2_def power_int_nonneg_exp)
next
  case False
  then have "2 powi k = 1 / (2 :: rat) ^ nat (- k)"
    by (simp add: power_int_def field_simps)
  with False show ?thesis
    by (simp add: scale2_def)
qed

lemma scale2_le_iff:
  assumes "0 < p" "0 < q"
  shows "scale2 q b \<le> scale2 p (- b) \<longleftrightarrow> 2 powi b \<le> rat_of_int p / rat_of_int q"
proof -
  have pos: "0 < rat_of_int (scale2 q b)" using assms(2) by (simp add: scale2_pos)
  have "scale2 q b \<le> scale2 p (- b)
          \<longleftrightarrow> rat_of_int (scale2 q b) \<le> rat_of_int (scale2 p (- b))"
    by simp
  also have "\<dots> \<longleftrightarrow> 1 \<le> rat_of_int (scale2 p (- b)) / rat_of_int (scale2 q b)"
    using pos by (simp add: pos_le_divide_eq)
  also have "rat_of_int (scale2 p (- b)) / rat_of_int (scale2 q b)
               = rat_of_int p / rat_of_int q * 2 powi (- b)"
    using scale2_ratio [OF assms(2), of p "- b"] by simp
  also have "rat_of_int p / rat_of_int q * 2 powi (- b)
               = rat_of_int p / rat_of_int q / 2 powi b"
    by (simp add: power_int_minus divide_inverse)
  also have "1 \<le> rat_of_int p / rat_of_int q / 2 powi b
               \<longleftrightarrow> 1 * 2 powi b \<le> rat_of_int p / rat_of_int q"
    by (rule pos_le_divide_eq) simp
  also have "1 * (2::rat) powi b = 2 powi b" by simp
  finally show ?thesis .
qed

lemma round_half_even_div_error:
  assumes "0 < d"
  shows "\<bar>rat_of_int (round_half_even_div n d) - rat_of_int n / rat_of_int d\<bar> \<le> 1 / 2"
proof -
  define k r where "k = n div d" and "r = n mod d"
  define f where "f = rat_of_int r / rat_of_int d"
  have n: "n = d * k + r" by (simp add: k_def r_def)
  have r: "0 \<le> r" "r < d" using assms by (simp_all add: r_def)
  have d: "0 < rat_of_int d" using assms by simp
  have q: "rat_of_int n / rat_of_int d = rat_of_int k + f"
    using assms by (simp add: n f_def field_simps)
  have f01: "0 \<le> f" "f \<le> 1" using r d by (simp_all add: f_def)
  consider "2 * r < d" | "d < 2 * r" | "2 * r = d" by linarith
  then show ?thesis
  proof cases
    case 1
    then have "rat_of_int (2 * r) < rat_of_int d" by (simp only: of_int_less_iff)
    then have "f \<le> 1 / 2"
      using d by (simp add: f_def field_simps)
    moreover have "round_half_even_div n d = k"
      using 1 by (simp add: round_half_even_div_def Let_def k_def r_def)
    ultimately show ?thesis using f01 by (simp add: q)
  next
    case 2
    then have "rat_of_int d < rat_of_int (2 * r)" by (simp only: of_int_less_iff)
    then have "1 / 2 \<le> f"
      using d by (simp add: f_def field_simps)
    moreover have "round_half_even_div n d = k + 1"
      using 2 by (simp add: round_half_even_div_def Let_def k_def r_def)
    ultimately show ?thesis using f01 by (simp add: q)
  next
    case 3
    then have "rat_of_int (2 * r) = rat_of_int d" by (simp only:)
    then have "f = 1 / 2"
      using d by (simp add: f_def field_simps)
    moreover have "round_half_even_div n d = k \<or> round_half_even_div n d = k + 1"
      using 3 by (simp add: round_half_even_div_def Let_def k_def r_def)
    ultimately show ?thesis by (auto simp: q)
  qed
qed

lemma pow2_less_D: "(2::rat) powi a < 2 powi b \<Longrightarrow> a < b"
  using power_int_increasing [of b a "2::rat"] by (cases "a < b") auto

lemma pow2_split: "(2::rat) powi (a + b) = 2 powi a * 2 powi b"
  by (rule power_int_add) simp

lemma ratio_bit_length:
  assumes "0 < n" "0 < d"
  defines "b \<equiv> bit_length n - bit_length d"
  shows "(2::rat) powi (b - 1) < rat_of_int n / rat_of_int d"
    and "rat_of_int n / rat_of_int d < (2::rat) powi (b + 1)"
proof -
  note bn = bit_length_powi [OF assms(1)] and bd = bit_length_powi [OF assms(2)]
  have d: "0 < rat_of_int d" and n: "0 < rat_of_int n" using assms by simp_all
  have "(2::rat) powi (b - 1) = 2 powi (bit_length n - 1) / 2 powi (bit_length d)"
    unfolding b_def using power_int_diff [of "2::rat" "bit_length n - 1" "bit_length d"]
    by (simp add: algebra_simps)
  also have "\<dots> \<le> rat_of_int n / 2 powi (bit_length d)"
    using bn(1) by (intro divide_right_mono) simp_all
  also have "\<dots> < rat_of_int n / rat_of_int d"
    using bd(2) n d by (intro divide_strict_left_mono) simp_all
  finally show "2 powi (b - 1) < rat_of_int n / rat_of_int d" .
  have "rat_of_int n / rat_of_int d \<le> rat_of_int n / 2 powi (bit_length d - 1)"
    using bd(1) n d by (intro divide_left_mono mult_pos_pos) simp_all
  also have "\<dots> < 2 powi (bit_length n) / 2 powi (bit_length d - 1)"
    using bn(2) by (intro divide_strict_right_mono) simp_all
  also have "\<dots> = (2::rat) powi (b + 1)"
    unfolding b_def using power_int_diff [of "2::rat" "bit_length n" "bit_length d - 1"]
    by (simp add: algebra_simps)
  finally show "rat_of_int n / rat_of_int d < 2 powi (b + 1)" .
qed

lemma fl_bounds:
  assumes "0 < n" "0 < d"
    and x: "x = rat_of_int n / rat_of_int d * 2 powi s"
    and lo: "2 powi (- 1022) \<le> x" and hi: "x < 2 powi 1000"
  shows "\<exists>m e. fl n d s = Finite m e \<and> 0 < m
           \<and> x * (1 - 1 / 2 ^ 53) \<le> valof (Finite m e)
           \<and> valof (Finite m e) \<le> x * (1 + 1 / 2 ^ 53)"
proof -
  define r0 where "r0 = rat_of_int n / rat_of_int d"
  define b where "b = bit_length n - bit_length d"
  define lg0 where "lg0 = (if 2 powi b \<le> r0 then b else b - 1)"
  define e where "e = lg0 + s - 52"
  define N D where "N = scale2 n (s - e)" and "D = scale2 d (e - s)"
  define m where "m = round_half_even_div N D"
  define y where "y = x * 2 powi (- e)"
  have r0: "2 powi (b - 1) < r0" "r0 < 2 powi (b + 1)"
    unfolding r0_def b_def using assms(1,2) by (rule ratio_bit_length)+
  have lg0: "2 powi lg0 \<le> r0" "r0 < 2 powi (lg0 + 1)"
    using r0 by (auto simp: lg0_def)
  have p2: "0 < (2::rat) powi k" for k by simp
  have xr: "x = r0 * 2 powi s" by (simp add: x r0_def)
  have "2 powi (lg0 + s) = 2 powi lg0 * (2::rat) powi s" by (rule pow2_split)
  also have "\<dots> \<le> x" unfolding xr using lg0(1) by (intro mult_right_mono) simp_all
  finally have xlo: "2 powi (lg0 + s) \<le> x" .
  have "x < 2 powi (lg0 + 1) * 2 powi s"
    unfolding xr using lg0(2) by (intro mult_strict_right_mono) simp_all
  also have "\<dots> = 2 powi (lg0 + s + 1)"
    using pow2_split [of "lg0 + 1" s] by (simp add: algebra_simps)
  finally have xhi: "x < 2 powi (lg0 + s + 1)" .
  have "(2::rat) powi (- 1022) < 2 powi (lg0 + s + 1)" using lo xhi by (rule le_less_trans)
  then have e_lo: "- 1074 \<le> e" using pow2_less_D [of "- 1022" "lg0 + s + 1"] by (simp add: e_def)
  have "(2::rat) powi (lg0 + s) < 2 powi 1000" using xlo hi by (rule le_less_trans)
  then have e_hi: "e < 948" using pow2_less_D [of "lg0 + s" 1000] by (simp add: e_def)
  have ye: "x = y * 2 powi e"
    by (simp add: y_def power_int_minus)
  have "2 powi (lg0 + s) * 2 powi (- e) \<le> y"
    unfolding y_def using xlo by (intro mult_right_mono) simp_all
  moreover have "(2::rat) powi (lg0 + s) * 2 powi (- e) = 2 powi 52"
    using pow2_split [of "lg0 + s" "- e"] by (simp add: e_def)
  ultimately have ylo: "2 ^ 52 \<le> y" by simp
  have Dpos: "0 < D" unfolding D_def using assms(2) by (rule scale2_pos)
  have "rat_of_int N / rat_of_int D = r0 * 2 powi (s - e)"
    unfolding N_def D_def r0_def using scale2_ratio [OF assms(2), of n "s - e"] by simp
  also have "\<dots> = y"
    using pow2_split [of s "- e"] by (simp add: y_def xr)
  finally have ND: "rat_of_int N / rat_of_int D = y" .
  have err: "\<bar>rat_of_int m - y\<bar> \<le> 1 / 2"
    unfolding m_def using round_half_even_div_error [OF Dpos, of N] by (simp add: ND)
  define t where "t = y * (1 / 2 ^ 53)"
  have half: "1 / 2 \<le> t" using ylo by (simp add: t_def)
  have yt: "y * (1 - 1 / 2 ^ 53) = y - t" "y * (1 + 1 / 2 ^ 53) = y + t"
    unfolding t_def by (simp_all only: right_diff_distrib distrib_left mult_1_right)
  from err have dm: "rat_of_int m - y \<le> 1 / 2" "y - rat_of_int m \<le> 1 / 2"
    by linarith+
  have mlo: "y * (1 - 1 / 2 ^ 53) \<le> rat_of_int m"
    unfolding yt using dm half by linarith
  have mhi: "rat_of_int m \<le> y * (1 + 1 / 2 ^ 53)"
    unfolding yt using dm half by linarith
  have "0 < y * (1 - 1 / 2 ^ 53)" using ylo by (intro mult_pos_pos) simp_all
  with mlo have "0 < rat_of_int m" by linarith
  then have mpos: "0 < m" by simp
  have t: "scale2 d b \<le> scale2 n (- b) \<longleftrightarrow> 2 powi b \<le> r0"
    unfolding r0_def using assms(1,2) by (rule scale2_le_iff)
  have lg: "(if scale2 d b \<le> scale2 n (- b) then b else b - 1) + s - 52 = e"
    by (simp add: t e_def lg0_def)
  have mx: "max e (- 1074) = e" using e_lo by simp
  have "fl n d s = Finite m e"
    using assms(1,2) e_hi mpos
    by (simp add: fl_def Let_def b_def [symmetric] lg mx m_def N_def D_def)
  moreover have "x * (1 - 1 / 2 ^ 53) \<le> valof (Finite m e)"
    using mlo by (simp add: ye mult_right_mono algebra_simps)
  moreover have "valof (Finite m e) \<le> x * (1 + 1 / 2 ^ 53)"
    using mhi by (simp add: ye mult_right_mono algebra_simps)
  ultimately show ?thesis using mpos by blast
qed

lemma fl_perto:
  assumes "0 < n" "0 < d"
    and x: "x = rat_of_int n / rat_of_int d * 2 powi s"
    and lo: "1 / 2 ^ 200 \<le> x" and hi: "x \<le> 2 ^ 200"
  shows "\<exists>m e. fl n d s = Finite m e \<and> 0 < m
           \<and> x * (1 - 1 / 2 ^ 53) \<le> valof (Finite m e)
           \<and> valof (Finite m e) \<le> x * (1 + 1 / 2 ^ 53)
           \<and> x / 2 \<le> valof (Finite m e) \<and> valof (Finite m e) \<le> 2 * x"
proof -
  have "(2::rat) powi (- 1022) \<le> 2 powi (- 200)"
    by (rule power_int_increasing) simp_all
  also have "(2::rat) powi (- 200) = 1 / 2 ^ 200"
    by (simp add: power_int_minus_divide)
  finally have l: "2 powi (- 1022) \<le> x" using lo by simp
  have "(2::rat) powi 200 < 2 powi 1000"
    by (rule power_int_strict_increasing) simp_all
  with hi have h: "x < 2 powi 1000" by simp
  from fl_bounds [OF assms(1,2) x l h] obtain m e where
      f: "fl n d s = Finite m e" "0 < m"
      and b: "x * (1 - 1 / 2 ^ 53) \<le> valof (Finite m e)"
             "valof (Finite m e) \<le> x * (1 + 1 / 2 ^ 53)"
    by blast
  have xpos: "0 < x" using lo by (rule less_le_trans [rotated]) simp
  have "x / 2 \<le> x * (1 - 1 / 2 ^ 53)" using xpos by simp
  moreover have "x * (1 + 1 / 2 ^ 53) \<le> 2 * x" using xpos by simp
  ultimately have "x / 2 \<le> valof (Finite m e)" "valof (Finite m e) \<le> 2 * x"
    using b by linarith+
  with f b show ?thesis by blast
qed

lemma float_of_int_perto:
  assumes "0 < n" "n \<le> 2 ^ 32"
  shows "\<exists>m e. float_of_int n = Inr (Finite m e) \<and> 0 < m
           \<and> rat_of_int n * (1 - 1 / 2 ^ 53) \<le> valof (Finite m e)
           \<and> valof (Finite m e) \<le> rat_of_int n * (1 + 1 / 2 ^ 53)
           \<and> 1 / 2 \<le> valof (Finite m e) \<and> valof (Finite m e) \<le> 2 ^ 33"
proof -
  have n1: "1 \<le> rat_of_int n" using assms(1) by simp
  have "rat_of_int n \<le> rat_of_int (2 ^ 32)" using assms(2) by (simp only: of_int_le_iff)
  then have n2: "rat_of_int n \<le> 2 ^ 32" by simp
  have "\<exists>m e. fl n 1 0 = Finite m e \<and> 0 < m
           \<and> rat_of_int n * (1 - 1 / 2 ^ 53) \<le> valof (Finite m e)
           \<and> valof (Finite m e) \<le> rat_of_int n * (1 + 1 / 2 ^ 53)
           \<and> rat_of_int n / 2 \<le> valof (Finite m e)
           \<and> valof (Finite m e) \<le> 2 * rat_of_int n"
    using assms(1) n1 n2 by (intro fl_perto) simp_all
  then obtain m e where f: "fl n 1 0 = Finite m e" "0 < m"
      and b: "rat_of_int n * (1 - 1 / 2 ^ 53) \<le> valof (Finite m e)"
             "valof (Finite m e) \<le> rat_of_int n * (1 + 1 / 2 ^ 53)"
             "rat_of_int n / 2 \<le> valof (Finite m e)"
             "valof (Finite m e) \<le> 2 * rat_of_int n"
    by blast
  have "2 * rat_of_int n \<le> 2 ^ 33" using n2 by simp
  with b(3,4) n1 have "1 / 2 \<le> valof (Finite m e)" "valof (Finite m e) \<le> 2 ^ 33"
    by linarith+
  moreover have "float_of_int n = Inr (Finite m e)"
    by (simp add: float_of_int_def f(1))
  ultimately show ?thesis using f(2) b(1,2) by blast
qed

lemma valof_mult:
  "valof (Finite a e) * valof (Finite b f) = rat_of_int (a * b) / rat_of_int 1 * 2 powi (e + f)"
  using pow2_split [of e f] by simp

lemma valof_divide:
  assumes "b \<noteq> 0"
  shows "valof (Finite a e) / valof (Finite b f)
           = rat_of_int a / rat_of_int b * 2 powi (e - f)"
  using power_int_diff [of "2::rat" e f] by simp

lemma fmul_perto:
  assumes "0 < a" "0 < b"
    and "x = valof (Finite a e) * valof (Finite b f)"
    and "1 / 2 ^ 200 \<le> x" "x \<le> 2 ^ 200"
  shows "\<exists>m k. fmul (Finite a e) (Finite b f) = Finite m k \<and> 0 < m
           \<and> x * (1 - 1 / 2 ^ 53) \<le> valof (Finite m k)
           \<and> valof (Finite m k) \<le> x * (1 + 1 / 2 ^ 53)
           \<and> x / 2 \<le> valof (Finite m k) \<and> valof (Finite m k) \<le> 2 * x"
proof -
  have p: "0 < a * b" using assms(1,2) by simp
  have x: "x = rat_of_int (a * b) / rat_of_int 1 * 2 powi (e + f)"
    unfolding assms(3) by (rule valof_mult)
  from fl_perto [OF p _ x assms(4,5)] show ?thesis by simp
qed

lemma fdiv_perto:
  assumes "0 < a" "0 < b"
    and "x = valof (Finite a e) / valof (Finite b f)"
    and "1 / 2 ^ 200 \<le> x" "x \<le> 2 ^ 200"
  shows "\<exists>m k. fdiv (Finite a e) (Finite b f) = Inr (Finite m k) \<and> 0 < m
           \<and> x * (1 - 1 / 2 ^ 53) \<le> valof (Finite m k)
           \<and> valof (Finite m k) \<le> x * (1 + 1 / 2 ^ 53)
           \<and> x / 2 \<le> valof (Finite m k) \<and> valof (Finite m k) \<le> 2 * x"
proof -
  have x: "x = rat_of_int a / rat_of_int b * 2 powi (e - f)"
    unfolding assms(3) using assms(2) by (intro valof_divide) simp
  from fl_perto [OF assms(1,2) x assms(4,5)] assms(2) show ?thesis by simp
qed

lemma py_int_abaixo_de_um:
  assumes "0 < m" "valof (Finite m e) < 1"
  shows "py_int (Finite m e) = Inr 0"
proof (cases "0 \<le> e")
  case True
  have "1 \<le> rat_of_int m" using assms(1) by simp
  moreover have "1 \<le> (2::rat) powi e" using True by simp
  ultimately have "1 * 1 \<le> rat_of_int m * 2 powi e" by (intro mult_mono) simp_all
  with assms(2) show ?thesis by simp
next
  case False
  then have "2 powi e = 1 / (2::rat) ^ nat (- e)"
    by (simp add: power_int_def field_simps)
  with assms(2) have "rat_of_int m < rat_of_int (2 ^ nat (- e))"
    by (simp add: field_simps)
  then have "m < 2 ^ nat (- e)" by (simp only: of_int_less_iff)
  with assms(1) False show ?thesis by simp
qed

lemma fl_zero: "fl 0 d s = Finite 0 0"
  by (simp add: fl_def)

lemma fator_terminal_valor: "fator_terminal = Finite 4953959590107546 (- 53)"
  by code_simp

lemma cadeia_de_arredondamentos:
  fixes A B C :: rat
  assumes "0 < B" "0 < A" "0 < C" "0 < w0" "0 \<le> h" "0 < w"
    and "0 < Vh" "0 < Vp" "0 < Vw" "0 < Vt"
    and "w0 * B \<le> Vw0" "Vh \<le> h * A" "Vp \<le> Vh / Vw0 * A" "Vw \<le> w * A"
    and "Vt \<le> Vw * Vp * A" "Vr \<le> Vt * C * A"
  shows "Vr \<le> w * h / w0 * (C * A ^ 5 / B)"
proof -
  have w0B: "0 < w0 * B" using assms(1,4) by simp
  have "Vh / Vw0 \<le> h * A / (w0 * B)"
    using assms(2,5,7,11,12) w0B by (intro frac_le) simp_all
  then have "Vh / Vw0 * A \<le> h * A / (w0 * B) * A"
    using assms(2) by (intro mult_right_mono) simp_all
  with assms(13) have p: "Vp \<le> h * A / (w0 * B) * A" by linarith
  have "Vw * Vp \<le> (w * A) * (h * A / (w0 * B) * A)"
    using assms(8,9,14) p by (intro mult_mono) simp_all
  then have "Vw * Vp * A \<le> (w * A) * (h * A / (w0 * B) * A) * A"
    using assms(2) by (intro mult_right_mono) simp_all
  with assms(15) have t: "Vt \<le> (w * A) * (h * A / (w0 * B) * A) * A" by linarith
  have "Vt * C * A \<le> (w * A) * (h * A / (w0 * B) * A) * A * C * A"
    using t assms(2,3) by (intro mult_right_mono) simp_all
  with assms(16) have "Vr \<le> (w * A) * (h * A / (w0 * B) * A) * A * C * A" by linarith
  also have "\<dots> = w * h / w0 * (C * A ^ 5 / B)"
    by (simp add: power_def)
  finally show ?thesis .
qed

lemma margem_da_constante:
  fixes K :: rat
  defines "K \<equiv> 4953959590107546 / 2 ^ 53 * (1 + 1 / 2 ^ 53) ^ 5 / (1 - 1 / 2 ^ 53)"
  shows "1 / 2 \<le> K" "0 \<le> 20 * K - 11" "20 * K - 11 \<le> 1 / 2 ^ 40"
  by (simp_all add: K_def power_divide)

lemma nova_altura_zero:
  assumes "0 < w0" "w0 \<le> 2 ^ 31" "0 \<le> h0" "0 < w" "w \<le> 2 ^ 31"
    and "11 * w * h0 < 20 * w0"
  shows "nova_altura (w0, h0) w = Inr 0"
proof -
  define A B C K :: rat where "A = 1 + 1 / 2 ^ 53" and "B = 1 - 1 / 2 ^ 53"
    and "C = 4953959590107546 / 2 ^ 53"
    and "K = 4953959590107546 / 2 ^ 53 * (1 + 1 / 2 ^ 53) ^ 5 / (1 - 1 / 2 ^ 53)"
  have AB: "0 < A" "0 < B" "0 < C" "1 / 2 \<le> C" "C \<le> 1"
    by (simp_all add: A_def B_def C_def)
  have CK: "C * A ^ 5 / B = K" by (simp only: A_def B_def C_def K_def)
  note mk = margem_da_constante [folded K_def]
  have "w0 \<le> 2 ^ 32" "w \<le> 2 ^ 32" using assms(2,5) by simp_all
  from float_of_int_perto [OF assms(1) this(1)] obtain a ea where
      fw0: "float_of_int w0 = Inr (Finite a ea)" and a: "0 < a"
      and w0lo: "rat_of_int w0 * B \<le> valof (Finite a ea)"
      and w0c: "1 / 2 \<le> valof (Finite a ea)" "valof (Finite a ea) \<le> 2 ^ 33"
    unfolding B_def by blast
  from float_of_int_perto [OF assms(4) \<open>w \<le> 2 ^ 32\<close>] obtain d ed where
      fw: "float_of_int w = Inr (Finite d ed)" and d: "0 < d"
      and whi: "valof (Finite d ed) \<le> rat_of_int w * A"
      and wc: "1 / 2 \<le> valof (Finite d ed)" "valof (Finite d ed) \<le> 2 ^ 33"
    unfolding A_def by blast
  show ?thesis
  proof (cases "h0 = 0")
    case True
    have "float_of_int 0 = Inr (Finite 0 0)"
      by (simp add: float_of_int_def fl_zero)
    with True fw0 fw a show ?thesis
      by (simp add: nova_altura_def bindE_def fl_zero fator_terminal_valor)
  next
    case False
    with assms(3) have hpos: "0 < h0" by simp
    define P where "P = w * h0"
    have "1 * h0 \<le> w * h0" using assms(3,4) by (intro mult_right_mono) simp_all
    then have "h0 \<le> P" by (simp add: P_def)
    moreover have "11 * P < 20 * w0" using assms(6) by (simp add: P_def mult.assoc)
    moreover have "w0 \<le> 2147483648" using assms(2) by simp
    ultimately have "h0 \<le> 4294967296" by linarith
    then have "h0 \<le> 2 ^ 32" by simp
    from float_of_int_perto [OF hpos this] obtain b eb where
        fh: "float_of_int h0 = Inr (Finite b eb)" and b: "0 < b"
        and hhi: "valof (Finite b eb) \<le> rat_of_int h0 * A"
        and hc: "1 / 2 \<le> valof (Finite b eb)" "valof (Finite b eb) \<le> 2 ^ 33"
      unfolding A_def by blast
    define xp where "xp = valof (Finite b eb) / valof (Finite a ea)"
    have "1 / 2 / 2 ^ 33 \<le> xp"
      unfolding xp_def using hc(1) w0c by (intro frac_le) simp_all
    then have xplo: "1 / 2 ^ 34 \<le> xp" by simp
    have "xp \<le> 2 ^ 33 / (1 / 2)"
      unfolding xp_def using hc w0c(1) by (intro frac_le) simp_all
    then have xphi: "xp \<le> 2 ^ 34" by simp
    have "1 / 2 ^ 200 \<le> xp" "xp \<le> 2 ^ 200"
      using xplo xphi by simp_all
    from fdiv_perto [OF b a xp_def this] obtain c ec where
        fp: "fdiv (Finite b eb) (Finite a ea) = Inr (Finite c ec)" and c: "0 < c"
        and phi: "valof (Finite c ec) \<le> xp * A"
        and pc: "xp / 2 \<le> valof (Finite c ec)" "valof (Finite c ec) \<le> 2 * xp"
      unfolding A_def by blast
    have pc': "1 / 2 ^ 35 \<le> valof (Finite c ec)" "valof (Finite c ec) \<le> 2 ^ 35"
      using pc xplo xphi by simp_all
    define xt where "xt = valof (Finite d ed) * valof (Finite c ec)"
    have "1 / 2 * (1 / 2 ^ 35) \<le> xt"
      unfolding xt_def using wc(1) pc'(1) by (intro mult_mono) simp_all
    then have xtlo: "1 / 2 ^ 36 \<le> xt" by simp
    have "xt \<le> 2 ^ 33 * 2 ^ 35"
      unfolding xt_def using wc pc' by (intro mult_mono) simp_all
    then have xthi: "xt \<le> 2 ^ 68" by simp
    have "1 / 2 ^ 200 \<le> xt" "xt \<le> 2 ^ 200"
      using xtlo xthi by simp_all
    from fmul_perto [OF d c xt_def this] obtain g eg where
        ft: "fmul (Finite d ed) (Finite c ec) = Finite g eg" and g: "0 < g"
        and thi: "valof (Finite g eg) \<le> xt * A"
        and tc: "xt / 2 \<le> valof (Finite g eg)" "valof (Finite g eg) \<le> 2 * xt"
      unfolding A_def by blast
    have tc': "1 / 2 ^ 37 \<le> valof (Finite g eg)" "valof (Finite g eg) \<le> 2 ^ 69"
      using tc xtlo xthi by simp_all
    have vc: "valof (Finite 4953959590107546 (- 53)) = C"
      by (simp add: C_def power_int_minus_divide)
    define xr where "xr = valof (Finite g eg) * valof (Finite 4953959590107546 (- 53))"
    have "1 / 2 ^ 37 * (1 / 2) \<le> xr"
      unfolding xr_def vc using tc'(1) AB(4) by (intro mult_mono) simp_all
    then have xrlo: "1 / 2 ^ 38 \<le> xr" by simp
    have "xr \<le> 2 ^ 69 * 1"
      unfolding xr_def vc using tc' AB(3,5) by (intro mult_mono) simp_all
    then have xrhi: "xr \<le> 2 ^ 69" by simp
    have "1 / 2 ^ 200 \<le> xr" "xr \<le> 2 ^ 200"
      using xrlo xrhi by simp_all
    from fmul_perto [OF g _ xr_def this] obtain m e where
        fr: "fmul (Finite g eg) (Finite 4953959590107546 (- 53)) = Finite m e" and m: "0 < m"
        and rhi: "valof (Finite m e) \<le> xr * A"
      unfolding A_def by auto
    have run: "nova_altura (w0, h0) w = py_int (Finite m e)"
      by (simp add: nova_altura_def bindE_def fw0 fh fp fw ft fator_terminal_valor fr
            del: fmul.simps fdiv.simps py_int.simps)
    have pos: "0 < valof (Finite b eb)" "0 < valof (Finite c ec)"
        "0 < valof (Finite d ed)" "0 < valof (Finite g eg)"
      using hc(1) pc'(1) wc(1) tc'(1) by (simp_all add: less_le_trans [rotated])
    have "valof (Finite m e) \<le> rat_of_int w * rat_of_int h0 / rat_of_int w0 * (C * A ^ 5 / B)"
      using AB(2,1,3) _ _ _ pos w0lo hhi _ whi
    proof (rule cadeia_de_arredondamentos)
      show "0 < rat_of_int w0" "0 \<le> rat_of_int h0" "0 < rat_of_int w"
        using assms(1,3,4) by simp_all
      show "valof (Finite c ec) \<le> valof (Finite b eb) / valof (Finite a ea) * A"
        using phi by (simp only: xp_def)
      show "valof (Finite g eg) \<le> valof (Finite d ed) * valof (Finite c ec) * A"
        using thi by (simp only: xt_def)
      show "valof (Finite m e) \<le> valof (Finite g eg) * C * A"
        using rhi by (simp only: xr_def vc)
    qed
    then have vr: "valof (Finite m e) \<le> rat_of_int w * rat_of_int h0 / rat_of_int w0 * K"
      by (simp only: CK)
    define W H L :: rat where "W = rat_of_int w0" and "H = rat_of_int h0" and "L = rat_of_int w"
    have Wpos: "0 < W" "W \<le> 2 ^ 31"
    proof -
      show "0 < W" using assms(1) by (simp add: W_def)
      have "rat_of_int w0 \<le> rat_of_int (2 ^ 31)" using assms(2) by (simp only: of_int_le_iff)
      then show "W \<le> 2 ^ 31" by (simp add: W_def)
    qed
    have "11 * w * h0 + 1 \<le> 20 * w0" using assms(6) by simp
    then have "rat_of_int (11 * w * h0 + 1) \<le> rat_of_int (20 * w0)"
      by (simp only: of_int_le_iff)
    then have LH: "11 * (L * H) \<le> 20 * W - 1"
      by (simp add: W_def H_def L_def)
    have Kpos: "0 < K" using mk(1) by simp
    have "W * (20 * K - 11) \<le> 2 ^ 31 * (1 / 2 ^ 40)"
      using Wpos mk(2,3) by (intro mult_mono) simp_all
    also have "\<dots> < 1 / 2" by simp
    finally have "W * (20 * K - 11) < K" using mk(1) by simp
    then have "(20 * W - 1) * K < 11 * W" by (simp add: algebra_simps)
    moreover have "11 * (L * H) * K \<le> (20 * W - 1) * K"
      using LH Kpos by (intro mult_right_mono) simp_all
    ultimately have "11 * (L * H * K) < 11 * W" by (simp add: mult.assoc)
    then have "L * H * K < W" by simp
    then have "L * H / W * K < 1" using Wpos(1) by (simp add: field_simps)
    with vr have "valof (Finite m e) < 1"
      unfolding W_def H_def L_def by (rule le_less_trans)
    with m have "py_int (Finite m e) = Inr 0" by (rule py_int_abaixo_de_um)
    with run show ?thesis by simp
  qed
qed

section \<open>Claim about the height zero\<close>

text \<open>
  C10. There are valid images and positive widths for which line 27 computes the height
  0: every image of size \<open>(w_orig, h_orig)\<close> and width \<open>w\<close>, both up to \<open>2 ^ 31\<close>, with
  \<open>w * h_orig / w_orig * 0.55 < 1\<close>, that is \<open>11 * w * h_orig < 20 * w_orig\<close>; a 1 by 1
  image at width 1 is one. No guard stands between that value and the library: the
  orchestrator calls the resize with the size \<open>w\<close> by 0. If the call raises, the exception
  reaches the caller and nothing is printed; if it returns an empty image, the art
  printed is empty. Either way the output is not a non-empty art.
\<close>

theorem altura_zero_sem_guarda:
  assumes "image_open lib caminho_imagem = Inr imagem"
    and "img_size imagem = (w0, h0)"
    and "0 < w0" "w0 \<le> 2 ^ 31" "0 \<le> h0" "0 < largura" "largura \<le> 2 ^ 31"
    and "11 * largura * h0 < 20 * w0"
  shows "nova_altura (w0, h0) largura = Inr 0
     \<and> take 2 (fst (gerar_arte_ascii lib caminho_imagem largura invertido))
          = [CallOpen caminho_imagem, CallResize largura 0]
     \<and> (\<forall>e. image_resize lib imagem (largura, 0) = Inl e \<longrightarrow>
            gerar_arte_ascii lib caminho_imagem largura invertido
              = ([CallOpen caminho_imagem, CallResize largura 0], Some e))
     \<and> (\<forall>r g. image_resize lib imagem (largura, 0) = Inr r \<and> img_size r = (largura, 0)
              \<and> image_convert_L lib r = Inr g \<and> getdata g = [] \<longrightarrow>
            gerar_arte_ascii lib caminho_imagem largura invertido
              = ([CallOpen caminho_imagem, CallResize largura 0, CallConvert, Print []],
                 None))"
proof -
  have h: "nova_altura (w0, h0) largura = Inr 0"
    using assms(3-8) by (rule nova_altura_zero)
  then have a: "nova_altura (img_size imagem) largura = Inr 0"
    by (simp add: assms(2))
  have vazio: "gerar_arte_ascii lib caminho_imagem largura invertido
            = ([CallOpen caminho_imagem, CallResize largura 0, CallConvert, Print []], None)"
    if r: "image_resize lib imagem (largura, 0) = Inr r" and s: "img_size r = (largura, 0)"
      and g: "image_convert_L lib r = Inr g" and d: "getdata g = []" for r g
  proof -
    have m: "mapear_pixels_para_ascii g invertido = Inr []"
      by (simp add: mapear_pixels_para_ascii_def d)
    have "linhas [] (nat largura) 0 [] = []"
      by (subst linhas.simps) simp
    then have f: "arte_ascii_final [] (fst (img_size r)) = Inr []"
      using assms(6) by (simp add: arte_ascii_final_def s)
    from assms(1) a r g m f show ?thesis by (rule gerar_sucesso)
  qed
  from gerar_chama_resize [OF assms(1) a, of invertido]
    gerar_resize_falha [OF assms(1) a, of _ invertido] vazio h
  show ?thesis by blast
qed

theorem altura_zero_sem_guarda_witness:
  "nova_altura (1, 1) 1 = Inr 0
   \<and> gerar_arte_ascii pillow_exemplo ''ponto.png'' 1 False
     = ([CallOpen ''ponto.png'', CallResize 1 0], Some ValueError)"
proof -
  have h1: "image_open pillow_exemplo ''ponto.png'' = Inr imagem_ponto"
    by (simp add: pillow_exemplo_def)
  have h2: "img_size imagem_ponto = (1, 1)"
    by (simp add: imagem_ponto_def)
  have h3: "(0::int) < 1" "(1::int) \<le> 2 ^ 31" "(0::int) \<le> 1" "(0::int) < 1"
      "(1::int) \<le> 2 ^ 31" "11 * 1 * 1 < 20 * (1::int)"
    by simp_all
  have e: "image_resize pillow_exemplo imagem_ponto (1, 0) = Inl ValueError"
    by (simp add: pillow_exemplo_def)
  from altura_zero_sem_guarda [OF h1 h2 h3, of False] e
  show ?thesis by blast
qed

end
